theory Spec2Isabelle
  imports Main "HOL-Library.Word"
begin

unbundle bit_operations_syntax

section \<open>The SCD hwmon driver (scd-hwmon.c): SMBus and MDIO transaction engines\<close>

text \<open>
  The driver talks to one memory-mapped register window through
  \<^verbatim>\<open>scd_read_register\<close> and \<^verbatim>\<open>scd_write_register\<close>. The device behind the window
  is not part of the driver, so it is modelled as an oracle: \<open>feed h off n\<close> is the value
  the device returns for the \<open>n\<close>-th read of the register at offset \<open>off\<close>. Everything the
  driver does that the outside can observe is appended to a trace: register reads and
  writes, the delays (\<^verbatim>\<open>msleep\<close>, \<^verbatim>\<open>mdelay\<close>, \<^verbatim>\<open>udelay\<close>), the messages logged at
  warning or error level, and the bytes stored into the caller's data buffer.
  Debug-level messages (\<^verbatim>\<open>scd_dbg\<close>, \<^verbatim>\<open>master_dbg\<close>) are not traced.
\<close>

type_synonym u8 = "8 word"
type_synonym u16 = "16 word"
type_synonym u32 = "32 word"

datatype errno = EIO | EINVAL | EAGAIN | EOPNOTSUPP | EBUSY | ENODEV | ENOMEM | EEXIST | ERANGE

text \<open>A C status: \<open>Inl e\<close> is the return value \<open>-e\<close>, \<open>Inr ()\<close> is \<open>0\<close>.\<close>

type_synonym status = "errno + unit"

datatype event =
    RegRead u32 u32
  | RegWrite u32 u32
  | Msleep nat
  | Mdelay nat
  | Udelay nat
  | Log string
  | Store nat u8

record hw =
  feed :: "u32 \<Rightarrow> nat \<Rightarrow> u32"
  nreads :: "u32 \<Rightarrow> nat"
  trace :: "event list"
  alloc_ok :: "nat \<Rightarrow> bool"
  nallocs :: nat

definition emit :: "event \<Rightarrow> hw \<Rightarrow> hw" where
  "emit e h = h\<lparr>trace := trace h @ [e]\<rparr>"

definition scd_read_register :: "u32 \<Rightarrow> hw \<Rightarrow> u32 \<times> hw" where
  "scd_read_register off h =
     (let v = feed h off (nreads h off)
      in (v, emit (RegRead off v) (h\<lparr>nreads := (nreads h)(off := Suc (nreads h off))\<rparr>)))"

definition scd_write_register :: "u32 \<Rightarrow> u32 \<Rightarrow> hw \<Rightarrow> hw" where
  "scd_write_register off v h = emit (RegWrite off v) h"

text \<open>
  \<^verbatim>\<open>kzalloc\<close> belongs to the kernel: whether the \<open>n\<close>-th allocation succeeds is part of the
  environment (\<open>alloc_ok\<close>).
\<close>

definition kzalloc :: "hw \<Rightarrow> bool \<times> hw" where
  "kzalloc h = (alloc_ok h (nallocs h), h\<lparr>nallocs := Suc (nallocs h)\<rparr>)"

definition msleep :: "nat \<Rightarrow> hw \<Rightarrow> hw" where
  "msleep n h = emit (Msleep n) h"

definition mdelay :: "nat \<Rightarrow> hw \<Rightarrow> hw" where
  "mdelay n h = emit (Mdelay n) h"

definition udelay :: "nat \<Rightarrow> hw \<Rightarrow> hw" where
  "udelay n h = emit (Udelay n) h"

definition log_msg :: "string \<Rightarrow> hw \<Rightarrow> hw" where
  "log_msg s h = emit (Log s) h"

subsection \<open>Constants\<close>

definition SMBUS_REQUEST_OFFSET :: u32 where "SMBUS_REQUEST_OFFSET = 0x10"
definition SMBUS_CONTROL_STATUS_OFFSET :: u32 where "SMBUS_CONTROL_STATUS_OFFSET = 0x20"
definition SMBUS_RESPONSE_OFFSET :: u32 where "SMBUS_RESPONSE_OFFSET = 0x30"

definition MASTER_DEFAULT_BUS_COUNT :: u32 where "MASTER_DEFAULT_BUS_COUNT = 8"
definition MASTER_DEFAULT_MAX_RETRIES :: int where "MASTER_DEFAULT_MAX_RETRIES = 6"
definition MAX_CONFIG_LINE_SIZE :: nat where "MAX_CONFIG_LINE_SIZE = 100"
definition SMBUS_BLOCK_READ_TIMEOUT_STEP :: nat where "SMBUS_BLOCK_READ_TIMEOUT_STEP = 1"
definition FAIL_REASON_MAX_SZ :: nat where "FAIL_REASON_MAX_SZ = 50"

text \<open>
  The transfer sizes and directions of \<^verbatim>\<open><linux/i2c.h>\<close> (kernel constants, with the
  kernel's values), and the driver's own \<^verbatim>\<open>I2C_SMBUS_I2C_BLOCK_DATA_MSG\<close>.
\<close>

definition I2C_SMBUS_WRITE :: int where "I2C_SMBUS_WRITE = 0"
definition I2C_SMBUS_READ :: int where "I2C_SMBUS_READ = 1"

definition I2C_SMBUS_QUICK :: int where "I2C_SMBUS_QUICK = 0"
definition I2C_SMBUS_BYTE :: int where "I2C_SMBUS_BYTE = 1"
definition I2C_SMBUS_BYTE_DATA :: int where "I2C_SMBUS_BYTE_DATA = 2"
definition I2C_SMBUS_WORD_DATA :: int where "I2C_SMBUS_WORD_DATA = 3"
definition I2C_SMBUS_BLOCK_DATA :: int where "I2C_SMBUS_BLOCK_DATA = 5"
definition I2C_SMBUS_I2C_BLOCK_DATA :: int where "I2C_SMBUS_I2C_BLOCK_DATA = 8"
definition I2C_SMBUS_I2C_BLOCK_DATA_MSG :: int where "I2C_SMBUS_I2C_BLOCK_DATA_MSG = 9"
definition I2C_SMBUS_BLOCK_MAX :: int where "I2C_SMBUS_BLOCK_MAX = 32"

text \<open>\<^verbatim>\<open>SET_FAIL_REASON\<close>: \<^verbatim>\<open>snprintf\<close> into a buffer of \<^verbatim>\<open>FAIL_REASON_MAX_SZ\<close> bytes.\<close>

definition SET_FAIL_REASON :: "string \<Rightarrow> string" where
  "SET_FAIL_REASON s = take (FAIL_REASON_MAX_SZ - 1) s"

subsection \<open>Data model\<close>

record bus_params =
  p_addr :: u16
  p_t :: u8
  p_datw :: u8
  p_datr :: u8
  p_ed :: u8

definition default_smbus_params :: bus_params where
  "default_smbus_params = \<lparr>p_addr = 0, p_t = 1, p_datw = 3, p_datr = 3, p_ed = 0\<rparr>"

text \<open>
  \<^verbatim>\<open>struct scd_smbus_master\<close> without its bus list: the part a bus reaches through its
  back-pointer \<^verbatim>\<open>bus->master\<close>.
\<close>

record smbus_master_regs =
  m_id :: u32
  m_req :: u32
  m_cs :: u32
  m_resp :: u32
  br_supported :: bool
  max_retries :: int

record scd_smbus =
  master :: smbus_master_regs
  bus_id :: u32
  params :: "bus_params list"
  adap_nr :: int

record scd_smbus_master = smbus_master_regs +
  bus_list :: "scd_smbus list"

subsection \<open>Register codec\<close>

text \<open>
  The unions of a 32-bit register with a packed bit-field struct, fields allocated from
  the least significant bit (little-endian GCC layout, the driver's target). An
  assignment to a field keeps the low bits that fit, which is what \<open>ucast\<close> does.
\<close>

definition bit_at :: "nat \<Rightarrow> bool \<Rightarrow> u32" where
  "bit_at n b = (if b then push_bit n 1 else 0)"

record smbus_request_reg =
  req_d :: "8 word"
  req_ss :: "6 word"
  req_ed :: bool
  req_br :: bool
  req_dat :: "2 word"
  req_t :: "2 word"
  req_sp :: bool
  req_da :: bool
  req_dod :: bool
  req_st :: bool
  req_bs :: "4 word"
  req_ti :: "4 word"

definition req_zero :: smbus_request_reg where
  "req_zero = \<lparr>req_d = 0, req_ss = 0, req_ed = False, req_br = False, req_dat = 0,
     req_t = 0, req_sp = False, req_da = False, req_dod = False, req_st = False,
     req_bs = 0, req_ti = 0\<rparr>"

definition req_reg :: "smbus_request_reg \<Rightarrow> u32" where
  "req_reg r =
     ucast (req_d r) OR push_bit 8 (ucast (req_ss r)) OR bit_at 14 (req_ed r)
     OR bit_at 15 (req_br r) OR push_bit 16 (ucast (req_dat r))
     OR push_bit 18 (ucast (req_t r)) OR bit_at 20 (req_sp r) OR bit_at 21 (req_da r)
     OR bit_at 22 (req_dod r) OR bit_at 23 (req_st r) OR push_bit 24 (ucast (req_bs r))
     OR push_bit 28 (ucast (req_ti r))"

definition reg_req :: "u32 \<Rightarrow> smbus_request_reg" where
  "reg_req v =
     \<lparr>req_d = ucast v, req_ss = ucast (drop_bit 8 v), req_ed = bit v 14, req_br = bit v 15,
      req_dat = ucast (drop_bit 16 v), req_t = ucast (drop_bit 18 v), req_sp = bit v 20,
      req_da = bit v 21, req_dod = bit v 22, req_st = bit v 23,
      req_bs = ucast (drop_bit 24 v), req_ti = ucast (drop_bit 28 v)\<rparr>"

text \<open>\<^verbatim>\<open>union smbus_ctrl_status_reg\<close>, kept as the register value.\<close>

definition cs_fs :: "u32 \<Rightarrow> 10 word" where "cs_fs v = ucast v"
definition cs_foe :: "u32 \<Rightarrow> bool" where "cs_foe v = bit v 13"
definition cs_brb :: "u32 \<Rightarrow> bool" where "cs_brb v = bit v 26"
definition cs_ver :: "u32 \<Rightarrow> 2 word" where "cs_ver v = ucast (drop_bit 28 v)"
definition cs_fe :: "u32 \<Rightarrow> bool" where "cs_fe v = bit v 30"
definition cs_reset :: "u32 \<Rightarrow> bool" where "cs_reset v = bit v 31"

definition cs_set_foe :: "bool \<Rightarrow> u32 \<Rightarrow> u32" where
  "cs_set_foe b v = (if b then set_bit 13 v else unset_bit 13 v)"

definition cs_set_reset :: "bool \<Rightarrow> u32 \<Rightarrow> u32" where
  "cs_set_reset b v = (if b then set_bit 31 v else unset_bit 31 v)"

text \<open>\<^verbatim>\<open>union smbus_response_reg\<close>, kept as the register value.\<close>

definition resp_d :: "u32 \<Rightarrow> u8" where "resp_d v = ucast v"
definition resp_bus_conflict_error :: "u32 \<Rightarrow> bool" where "resp_bus_conflict_error v = bit v 8"
definition resp_timeout_error :: "u32 \<Rightarrow> bool" where "resp_timeout_error v = bit v 9"
definition resp_ack_error :: "u32 \<Rightarrow> bool" where "resp_ack_error v = bit v 10"
definition resp_flushed :: "u32 \<Rightarrow> bool" where "resp_flushed v = bit v 11"
definition resp_ti :: "u32 \<Rightarrow> 4 word" where "resp_ti v = ucast (drop_bit 12 v)"
definition resp_ss :: "u32 \<Rightarrow> 6 word" where "resp_ss v = ucast (drop_bit 16 v)"
definition resp_foe :: "u32 \<Rightarrow> bool" where "resp_foe v = bit v 30"
definition resp_fe :: "u32 \<Rightarrow> bool" where "resp_fe v = bit v 31"

subsection \<open>SMBus register access\<close>

definition smbus_master_write_req :: "smbus_master_regs \<Rightarrow> smbus_request_reg \<Rightarrow> hw \<Rightarrow> hw" where
  "smbus_master_write_req m r h = scd_write_register (m_req m) (req_reg r) h"

definition smbus_master_write_cs :: "smbus_master_regs \<Rightarrow> u32 \<Rightarrow> hw \<Rightarrow> hw" where
  "smbus_master_write_cs m cs h = scd_write_register (m_cs m) cs h"

definition smbus_master_read_cs :: "smbus_master_regs \<Rightarrow> hw \<Rightarrow> u32 \<times> hw" where
  "smbus_master_read_cs m h = scd_read_register (m_cs m) h"

definition raw_smbus_master_read_resp :: "smbus_master_regs \<Rightarrow> hw \<Rightarrow> u32 \<times> hw" where
  "raw_smbus_master_read_resp m h = scd_read_register (m_resp m) h"

text \<open>
  The loop of \<^verbatim>\<open>smbus_master_read_resp\<close>:
  \<^verbatim>\<open>while (!cs.fs && --retries) { msleep(10); cs = smbus_master_read_cs(master); }\<close>
  with \<open>retries\<close> a \<^verbatim>\<open>u32\<close>.
\<close>

function smbus_master_read_resp_loop ::
  "smbus_master_regs \<Rightarrow> u32 \<Rightarrow> u32 \<Rightarrow> hw \<Rightarrow> u32 \<times> hw" where
  "smbus_master_read_resp_loop m retries cs h =
     (if cs_fs cs = 0 \<and> retries - 1 \<noteq> 0
      then (case smbus_master_read_cs m (msleep 10 h) of
              (cs', h') \<Rightarrow> smbus_master_read_resp_loop m (retries - 1) cs' h')
      else (cs, h))"
  by pat_completeness auto
termination
proof (relation "measure (\<lambda>(m, retries, cs, h). unat (retries - 1))", goal_cases)
  case 1
  show ?case by simp
next
  case (2 m retries cs h x y)
  then have "retries - 1 \<noteq> 0" by simp
  then have "unat (retries - 1 - 1) < unat (retries - 1)"
    using unat_minus_one [of "retries - 1"] unat_gt_0 [of "retries - 1"] by linarith
  then show ?case by simp
qed

definition smbus_master_read_resp :: "smbus_master_regs \<Rightarrow> hw \<Rightarrow> u32 \<times> hw" where
  "smbus_master_read_resp m h =
     (case smbus_master_read_cs m h of
        (cs0, h0) \<Rightarrow>
          (case smbus_master_read_resp_loop m 20 cs0 h0 of
             (cs, h1) \<Rightarrow>
               raw_smbus_master_read_resp m
                 (if cs_fs cs = 0 then log_msg ''fifo still empty after retries'' h1 else h1)))"

text \<open>
  \<^verbatim>\<open>smbus_check_resp\<close>: the name of the first failing check, in the order of the source.
\<close>

definition smbus_resp_error :: "u32 \<Rightarrow> u32 \<Rightarrow> string option" where
  "smbus_resp_error resp tid =
     (if resp_fe resp then Some ''fe''
      else if resp_ack_error resp then Some ''ack''
      else if resp_timeout_error resp then Some ''timeout''
      else if resp_bus_conflict_error resp then Some ''conflict''
      else if resp_flushed resp then Some ''flush''
      else if ucast (resp_ti resp) \<noteq> tid then Some ''tid''
      else if resp_foe resp then Some ''overflow''
      else None)"

text \<open>
  The caller's \<^verbatim>\<open>fail_reason\<close> buffer is \<open>Some s\<close> (a buffer holding \<open>s\<close>) or \<open>None\<close>
  (a \<^verbatim>\<open>NULL\<close> pointer). The status is \<^verbatim>\<open>-EIO\<close> for every failing check.
\<close>

definition smbus_check_resp :: "u32 \<Rightarrow> u32 \<Rightarrow> string option \<Rightarrow> status \<times> string option" where
  "smbus_check_resp resp tid fail_reason =
     (case smbus_resp_error resp tid of
        None \<Rightarrow> (Inr (), fail_reason)
      | Some error \<Rightarrow>
          (Inl EIO,
           (case fail_reason of
              None \<Rightarrow> None
            | Some _ \<Rightarrow> Some (SET_FAIL_REASON (''bad response: '' @ error)))))"

definition smbus_master_reset :: "smbus_master_regs \<Rightarrow> hw \<Rightarrow> hw" where
  "smbus_master_reset m h =
     (case smbus_master_read_cs m h of
        (cs, h1) \<Rightarrow>
          (let cs1 = cs_set_foe True (cs_set_reset True cs);
               h2 = mdelay 50 (smbus_master_write_cs m cs1 h1);
               cs2 = cs_set_reset False cs1
           in mdelay 50 (smbus_master_write_cs m cs2 h2)))"

fun get_smbus_params_list :: "bus_params list \<Rightarrow> u16 \<Rightarrow> bus_params" where
  "get_smbus_params_list [] addr = default_smbus_params"
| "get_smbus_params_list (p # ps) addr =
     (if p_addr p = addr then p else get_smbus_params_list ps addr)"

definition get_smbus_params :: "scd_smbus \<Rightarrow> u16 \<Rightarrow> bus_params" where
  "get_smbus_params bus addr = get_smbus_params_list (params bus) addr"


subsection \<open>The caller's data buffer\<close>

text \<open>
  \<^verbatim>\<open>union i2c_smbus_data\<close> is the memory at the pointer \<open>data\<close>: \<open>d k\<close> is the byte at
  \<open>data + k\<close>, so \<^verbatim>\<open>data->block[k]\<close> is \<open>d k\<close>, \<^verbatim>\<open>data->byte\<close> is \<open>d 0\<close> and
  \<^verbatim>\<open>data->word\<close> is \<open>d 0\<close> (low byte) with \<open>d 1\<close> (little-endian). How many bytes
  belong to the caller is what the caller passes as \<open>data_size\<close>; every store is recorded
  in the trace with its index.
\<close>

type_synonym buf = "nat \<Rightarrow> u8"

definition store_block :: "nat \<Rightarrow> u8 \<Rightarrow> buf \<times> hw \<Rightarrow> buf \<times> hw" where
  "store_block k v dh = (case dh of (d, h) \<Rightarrow> (d(k := v), emit (Store k v) h))"

definition store_byte :: "u8 \<Rightarrow> buf \<times> hw \<Rightarrow> buf \<times> hw" where
  "store_byte v dh = store_block 0 v dh"

definition store_word :: "u16 \<Rightarrow> buf \<times> hw \<Rightarrow> buf \<times> hw" where
  "store_word w dh = store_block 1 (ucast (drop_bit 8 w)) (store_block 0 (ucast w) dh)"

definition load_word :: "buf \<Rightarrow> u16" where
  "load_word d = ucast (d 0) OR push_bit 8 (ucast (d 1))"

subsection \<open>Hardware-assisted block read\<close>

text \<open>The first loop of \<^verbatim>\<open>scd_smbus_block_read\<close>: the three request phases.\<close>

function scd_smbus_block_read_issue ::
  "smbus_master_regs \<Rightarrow> u16 \<Rightarrow> u8 \<Rightarrow> nat \<Rightarrow> nat \<Rightarrow> smbus_request_reg \<Rightarrow> hw
     \<Rightarrow> smbus_request_reg \<times> hw" where
  "scd_smbus_block_read_issue m addr command ss i req h =
     (if i < ss
      then (let r1 = (if i = 1 then req\<lparr>req_st := False, req_ss := 0, req_d := command\<rparr>
                      else req);
                r2 = (if i = 2
                      then r1\<lparr>req_br := True, req_st := True,
                              req_d := push_bit 1 (ucast addr) OR 1\<rparr>
                      else r1);
                r3 = r2\<lparr>req_da := \<not> (req_dod r2 \<or> req_sp r2)\<rparr>;
                h1 = smbus_master_write_req m r3 h
            in scd_smbus_block_read_issue m addr command ss (i + 1)
                 (r3\<lparr>req_ti := req_ti r3 + 1\<rparr>) h1)
      else (req, h))"
  by pat_completeness auto
termination
  by (relation "measure (\<lambda>(m, addr, command, ss, i, req, h). ss - i)") auto

text \<open>
  \<^verbatim>\<open>while (cs.brb && ct < t) { msleep(STEP); ct += STEP; cs = smbus_master_read_cs(master); }\<close>
\<close>

function scd_smbus_block_read_wait ::
  "smbus_master_regs \<Rightarrow> nat \<Rightarrow> nat \<Rightarrow> u32 \<Rightarrow> hw \<Rightarrow> nat \<times> u32 \<times> hw" where
  "scd_smbus_block_read_wait m t ct cs h =
     (if cs_brb cs \<and> ct < t
      then (case smbus_master_read_cs m (msleep SMBUS_BLOCK_READ_TIMEOUT_STEP h) of
              (cs', h') \<Rightarrow>
                scd_smbus_block_read_wait m t (ct + SMBUS_BLOCK_READ_TIMEOUT_STEP) cs' h')
      else (ct, cs, h))"
  by pat_completeness auto
termination
  by (relation "measure (\<lambda>(m, t, ct, cs, h). t - ct)")
     (auto simp: SMBUS_BLOCK_READ_TIMEOUT_STEP_def)

text \<open>
  The second loop of \<^verbatim>\<open>scd_smbus_block_read\<close>: the responses. \<open>ss\<close> grows by the length
  byte when the response of phase 3 arrives.
\<close>

function scd_smbus_block_read_poll ::
  "smbus_master_regs \<Rightarrow> int \<Rightarrow> nat \<Rightarrow> nat \<Rightarrow> 4 word \<Rightarrow> buf \<Rightarrow> hw \<Rightarrow> status \<times> buf \<times> hw" where
  "scd_smbus_block_read_poll m data_size ss i tid d h =
     (if i < ss
      then (case smbus_master_read_resp m h of
              (resp, h1) \<Rightarrow>
                (case smbus_check_resp resp (ucast tid) None of
                   (Inl e, _) \<Rightarrow> (Inl e, d, h1)
                 | (Inr _, _) \<Rightarrow>
                     (let ss1 = (if i = 3 then ss + unat (resp_d resp) else ss)
                      in if 3 \<le> i
                         then (if data_size \<le> int i - 3
                               then (Inl EINVAL, d,
                                     log_msg ''smbus read failed (output too big)'' h1)
                               else (case store_block (i - 3) (resp_d resp) (d, h1) of
                                       (d2, h2) \<Rightarrow>
                                         scd_smbus_block_read_poll m data_size ss1 (i + 1)
                                           (tid + 1) d2 h2))
                         else scd_smbus_block_read_poll m data_size ss1 (i + 1)
                                (tid + 1) d h1)))
      else (Inr (), d, h))"
  by pat_completeness auto
termination
proof (relation "measure (\<lambda>(m, data_size, ss, i, tid, d, h).
                   (if i \<le> 3 then 300 else 0) + (ss - i))", goal_cases)
  case 1
  show ?case by simp
next
  case (2 m data_size ss i tid d h x y xa ya xb xc yc)
  have "unat (resp_d x) < 256"
    using unsigned_less [of "resp_d x", where ?'a = nat] by simp
  with 2 show ?case by auto
next
  case (3 m data_size ss i tid d h x y xa ya xb)
  then show ?case by auto
qed

definition scd_smbus_block_read ::
  "scd_smbus \<Rightarrow> u16 \<Rightarrow> u8 \<Rightarrow> buf \<Rightarrow> int \<Rightarrow> hw \<Rightarrow> status \<times> buf \<times> hw" where
  "scd_smbus_block_read bus addr command d data_size h =
     (let m = master bus;
          ps = get_smbus_params bus addr;
          ss = 3;
          req = req_zero\<lparr>req_bs := ucast (bus_id bus), req_t := ucast (p_t ps),
                  req_st := True, req_ss := of_nat ss,
                  req_d := push_bit 1 (ucast addr), req_dod := True\<rparr>
      in case scd_smbus_block_read_issue m addr command ss 0 req h of
           (req1, h1) \<Rightarrow>
             (let t = (if 3 < p_t ps then 100 else [5, 35 + 5, 500 + 5, 1000 + 5] ! unat (p_t ps))
              in case smbus_master_read_cs m h1 of
                   (cs0, h2) \<Rightarrow>
                     (case scd_smbus_block_read_wait m t 0 cs0 h2 of
                        (ct, cs, h3) \<Rightarrow>
                          if ct = t
                          then (Inl EINVAL, d, log_msg ''smbus response timeout'' h3)
                          else scd_smbus_block_read_poll m data_size (ss + 1) 0 0 d h3)))"

subsection \<open>The generic transaction\<close>

text \<open>
  The body of the first loop of \<^verbatim>\<open>scd_smbus_do_impl\<close> up to the register write: the
  fields of the request that change at phase \<open>i\<close>.
\<close>

definition scd_smbus_do_impl_phase ::
  "bus_params \<Rightarrow> int \<Rightarrow> u8 \<Rightarrow> u16 \<Rightarrow> nat \<Rightarrow> buf \<Rightarrow> nat \<Rightarrow> nat \<Rightarrow> smbus_request_reg
     \<Rightarrow> smbus_request_reg" where
  "scd_smbus_do_impl_phase ps read_write command addr data_offset d ss i req =
     (let r1 = (if i + 1 = ss
                then req\<lparr>req_sp := True, req_ed := bit (p_ed ps) 0,
                         req_dat := ucast (if read_write = I2C_SMBUS_WRITE
                                           then p_datw ps else p_datr ps)\<rparr>
                else req);
          r2 = (if i = 1
                then r1\<lparr>req_st := False, req_ss := 0, req_d := command,
                        req_dod := (if ss = 2 then read_write = I2C_SMBUS_WRITE else True)\<rparr>
                else r1);
          r3 = (if i = 2 \<and> read_write = I2C_SMBUS_READ
                then r2\<lparr>req_st := True, req_d := push_bit 1 (ucast addr) OR 1\<rparr>
                else r2);
          r4 = (if 2 \<le> i \<and> read_write = I2C_SMBUS_WRITE
                then r3\<lparr>req_d := d (data_offset + i - 2)\<rparr>
                else r3);
          r5 = (if i = 3 \<and> read_write = I2C_SMBUS_READ then r4\<lparr>req_dod := False\<rparr> else r4)
      in r5\<lparr>req_da := \<not> (req_dod r5 \<or> req_sp r5)\<rparr>)"

function scd_smbus_do_impl_issue ::
  "smbus_master_regs \<Rightarrow> bus_params \<Rightarrow> int \<Rightarrow> u8 \<Rightarrow> u16 \<Rightarrow> nat \<Rightarrow> buf \<Rightarrow> nat \<Rightarrow> nat
     \<Rightarrow> smbus_request_reg \<Rightarrow> hw \<Rightarrow> smbus_request_reg \<times> hw" where
  "scd_smbus_do_impl_issue m ps read_write command addr data_offset d ss i req h =
     (if i < ss
      then (let r = scd_smbus_do_impl_phase ps read_write command addr data_offset d ss i req;
                h1 = smbus_master_write_req m r h
            in scd_smbus_do_impl_issue m ps read_write command addr data_offset d ss (i + 1)
                 (r\<lparr>req_ti := req_ti r + 1, req_st := False\<rparr>) h1)
      else (req, h))"
  by pat_completeness auto
termination
  by (relation "measure (\<lambda>(m, ps, read_write, command, addr, data_offset, d, ss, i, req, h).
                   ss - i)") auto

text \<open>
  Where the response of phase \<open>i\<close> goes (the \<^verbatim>\<open>if (read_write == I2C_SMBUS_READ)\<close> block
  of the second loop). \<open>Inl\<close> is the \<^verbatim>\<open>buffer too short\<close> exit.
\<close>

definition scd_smbus_do_impl_store ::
  "int \<Rightarrow> int \<Rightarrow> int \<Rightarrow> nat \<Rightarrow> nat \<Rightarrow> u32 \<Rightarrow> buf \<times> hw \<Rightarrow> string + buf \<times> hw" where
  "scd_smbus_do_impl_store read_write sz data_size ss i resp dh =
     (if read_write = I2C_SMBUS_READ
      then (if sz = I2C_SMBUS_BYTE \<or> sz = I2C_SMBUS_BYTE_DATA
            then (if i + 1 = ss then Inr (store_byte (resp_d resp) dh) else Inr dh)
            else if sz = I2C_SMBUS_WORD_DATA
            then (if i + 2 = ss then Inr (store_word (ucast (resp_d resp)) dh)
                  else if i + 1 = ss
                  then Inr (store_word
                              (load_word (fst dh) OR push_bit 8 (ucast (resp_d resp))) dh)
                  else Inr dh)
            else (if 3 \<le> i
                  then (if sz = I2C_SMBUS_I2C_BLOCK_DATA
                        then (if data_size \<le> int i - 2 then Inl ''buffer too short''
                              else Inr (store_block (i - 2) (resp_d resp) dh))
                        else (if data_size \<le> int i - 3 then Inl ''buffer too short''
                              else Inr (store_block (i - 3) (resp_d resp) dh)))
                  else Inr dh))
      else Inr dh)"

function scd_smbus_do_impl_poll ::
  "smbus_master_regs \<Rightarrow> int \<Rightarrow> int \<Rightarrow> int \<Rightarrow> nat \<Rightarrow> nat \<Rightarrow> 4 word \<Rightarrow> buf \<Rightarrow> string \<Rightarrow> hw
     \<Rightarrow> status \<times> buf \<times> string \<times> hw" where
  "scd_smbus_do_impl_poll m read_write sz data_size ss i tid d fail_reason h =
     (if i < ss
      then (case smbus_master_read_resp m h of
              (resp, h1) \<Rightarrow>
                (case smbus_check_resp resp (ucast tid) (Some fail_reason) of
                   (Inl e, fr) \<Rightarrow>
                     (Inl e, d, (case fr of Some s \<Rightarrow> s | None \<Rightarrow> fail_reason), h1)
                 | (Inr _, _) \<Rightarrow>
                     (case scd_smbus_do_impl_store read_write sz data_size ss i resp (d, h1) of
                        Inl reason \<Rightarrow> (Inl EINVAL, d, SET_FAIL_REASON reason, h1)
                      | Inr (d2, h2) \<Rightarrow>
                          scd_smbus_do_impl_poll m read_write sz data_size ss (i + 1)
                            (tid + 1) d2 fail_reason h2)))
      else (Inr (), d, fail_reason, h))"
  by pat_completeness auto
termination
  by (relation "measure (\<lambda>(m, read_write, sz, data_size, ss, i, tid, d, fail_reason, h).
                   ss - i)") auto

text \<open>The label \<^verbatim>\<open>fail:\<close> of \<^verbatim>\<open>scd_smbus_do_impl\<close>: reset the master, return \<open>ret\<close>.\<close>

definition scd_smbus_do_impl_fail ::
  "smbus_master_regs \<Rightarrow> errno \<Rightarrow> buf \<Rightarrow> string \<Rightarrow> hw \<Rightarrow> status \<times> buf \<times> string \<times> hw" where
  "scd_smbus_do_impl_fail m e d fail_reason h = (Inl e, d, fail_reason, smbus_master_reset m h)"

text \<open>
  \<^verbatim>\<open>scd_smbus_do_impl\<close> from \<^verbatim>\<open>req.st = 1\<close> on, once the \<^verbatim>\<open>switch\<close> has set \<open>ss\<close> and
  \<open>data_offset\<close>: issue \<open>ss\<close> phases, then read and check \<open>ss\<close> responses.
\<close>

definition scd_smbus_do_impl_xfer ::
  "scd_smbus \<Rightarrow> u16 \<Rightarrow> int \<Rightarrow> u8 \<Rightarrow> int \<Rightarrow> buf \<Rightarrow> int \<Rightarrow> string \<Rightarrow> nat \<Rightarrow> nat \<Rightarrow> hw
     \<Rightarrow> status \<times> buf \<times> string \<times> hw" where
  "scd_smbus_do_impl_xfer bus addr read_write command sz d data_size fail_reason
       data_offset ss h =
     (let m = master bus;
          ps = get_smbus_params bus addr;
          req = req_zero\<lparr>req_bs := ucast (bus_id bus), req_t := ucast (p_t ps),
                  req_st := True, req_ss := of_nat ss,
                  req_d := push_bit 1 (ucast addr)
                           OR (if ss \<le> 2 then word_of_int read_write else 0),
                  req_dod := True\<rparr>
      in case scd_smbus_do_impl_issue m ps read_write command addr data_offset d ss 0 req h of
           (req1, h1) \<Rightarrow>
             (case scd_smbus_do_impl_poll m read_write sz data_size ss 0 0 d fail_reason h1 of
                (Inl e, d2, fr2, h2) \<Rightarrow> scd_smbus_do_impl_fail m e d2 fr2 h2
              | (Inr _, d2, fr2, h2) \<Rightarrow> (Inr (), d2, fr2, h2)))"

text \<open>
  The \<^verbatim>\<open>switch (size)\<close> for every case but the block read: \<open>(data_offset, ss)\<close>. A size
  the switch does not list leaves \<open>ss = 0\<close>. \<open>ss\<close> is a \<^verbatim>\<open>u32\<close>.
\<close>

definition scd_smbus_do_impl_ss :: "int \<Rightarrow> int \<Rightarrow> buf \<Rightarrow> int \<Rightarrow> nat \<times> nat" where
  "scd_smbus_do_impl_ss read_write sz d data_size =
     (if sz = I2C_SMBUS_QUICK then (0, 1)
      else if sz = I2C_SMBUS_BYTE then (0, 2)
      else if sz = I2C_SMBUS_BYTE_DATA
      then (0, if read_write = I2C_SMBUS_WRITE then 3 else 4)
      else if sz = I2C_SMBUS_WORD_DATA
      then (0, if read_write = I2C_SMBUS_WRITE then 4 else 5)
      else if sz = I2C_SMBUS_I2C_BLOCK_DATA_MSG
      then (0, if read_write = I2C_SMBUS_WRITE then nat ((2 + data_size) mod 2 ^ 32)
               else nat ((3 + data_size) mod 2 ^ 32))
      else if sz = I2C_SMBUS_I2C_BLOCK_DATA
      then (1, if read_write = I2C_SMBUS_WRITE then 2 + unat (d 0) else 3 + unat (d 0))
      else if sz = I2C_SMBUS_BLOCK_DATA
      then (0, if read_write = I2C_SMBUS_WRITE then 3 + unat (d 0) else 4 + unat (d 0))
      else (0, 0))"

function scd_smbus_do_impl ::
  "scd_smbus \<Rightarrow> u16 \<Rightarrow> u16 \<Rightarrow> int \<Rightarrow> u8 \<Rightarrow> int \<Rightarrow> buf \<Rightarrow> int \<Rightarrow> string \<Rightarrow> hw
     \<Rightarrow> status \<times> buf \<times> string \<times> hw" where
  "scd_smbus_do_impl bus addr flags read_write command sz d data_size fail_reason h =
     (if sz = I2C_SMBUS_BLOCK_DATA \<and> read_write \<noteq> I2C_SMBUS_WRITE
      then (if br_supported (master bus)
            then (case scd_smbus_block_read bus addr command d data_size h of
                    (Inl e, d1, h1) \<Rightarrow>
                      scd_smbus_do_impl_fail (master bus) e d1
                        (SET_FAIL_REASON ''block read failed'') h1
                  | (Inr _, d1, h1) \<Rightarrow> (Inr (), d1, fail_reason, h1))
            else (case scd_smbus_do_impl bus addr flags I2C_SMBUS_READ command
                         I2C_SMBUS_BYTE_DATA d data_size [] h of
                    (Inl e, d1, fr1, h1) \<Rightarrow>
                      scd_smbus_do_impl_fail (master bus) e d1
                        (SET_FAIL_REASON (''block size: '' @ fr1)) h1
                  | (Inr _, d1, fr1, h1) \<Rightarrow>
                      scd_smbus_do_impl_xfer bus addr read_write command sz d1 data_size
                        fail_reason 0 (snd (scd_smbus_do_impl_ss read_write sz d1 data_size))
                        h1))
      else (case scd_smbus_do_impl_ss read_write sz d data_size of
              (data_offset, ss) \<Rightarrow>
                scd_smbus_do_impl_xfer bus addr read_write command sz d data_size
                  fail_reason data_offset ss h))"
  by pat_completeness auto
termination
  by (relation "measure (\<lambda>(bus, addr, flags, read_write, command, sz, d, data_size,
                           fail_reason, h). if sz = I2C_SMBUS_BLOCK_DATA then 1 else 0)")
     (auto simp: I2C_SMBUS_BLOCK_DATA_def I2C_SMBUS_BYTE_DATA_def)

text \<open>\<^verbatim>\<open>scd_smbus_do\<close>: the same under the master's mutex.\<close>

definition scd_smbus_do ::
  "scd_smbus \<Rightarrow> u16 \<Rightarrow> u16 \<Rightarrow> int \<Rightarrow> u8 \<Rightarrow> int \<Rightarrow> buf \<Rightarrow> int \<Rightarrow> string \<Rightarrow> hw
     \<Rightarrow> status \<times> buf \<times> string \<times> hw" where
  "scd_smbus_do bus addr flags read_write command sz d data_size fail_reason h =
     scd_smbus_do_impl bus addr flags read_write command sz d data_size fail_reason h"

text \<open>
  The \<^verbatim>\<open>do { ... } while (retry < master->max_retries)\<close> loop of
  \<^verbatim>\<open>scd_smbus_access_impl\<close>; \<open>retry\<close> is the counter before the attempt.
\<close>

function scd_smbus_access_impl_loop ::
  "scd_smbus \<Rightarrow> u16 \<Rightarrow> u16 \<Rightarrow> int \<Rightarrow> u8 \<Rightarrow> int \<Rightarrow> int \<Rightarrow> int \<Rightarrow> buf \<Rightarrow> string \<Rightarrow> hw
     \<Rightarrow> status \<times> buf \<times> hw" where
  "scd_smbus_access_impl_loop bus addr flags read_write command sz data_size retry d
       fail_reason h =
     (case scd_smbus_do bus addr flags read_write command sz d data_size fail_reason h of
        (ret, d1, fr1, h1) \<Rightarrow>
          if ret \<noteq> Inl EIO then (ret, d1, h1)
          else if retry + 1 < max_retries (master bus)
          then scd_smbus_access_impl_loop bus addr flags read_write command sz data_size
                 (retry + 1) d1 fr1 h1
          else (Inl EIO, d1, log_msg (''smbus failed ('' @ fr1 @ '')'') h1))"
  by pat_completeness auto
termination
  by (relation "measure (\<lambda>(bus, addr, flags, read_write, command, sz, data_size, retry, d,
                           fail_reason, h). nat (max_retries (master bus) - retry))") auto

definition scd_smbus_access_impl ::
  "scd_smbus \<Rightarrow> u16 \<Rightarrow> u16 \<Rightarrow> int \<Rightarrow> u8 \<Rightarrow> int \<Rightarrow> buf \<Rightarrow> int \<Rightarrow> hw \<Rightarrow> status \<times> buf \<times> hw" where
  "scd_smbus_access_impl bus addr flags read_write command sz d data_size h =
     scd_smbus_access_impl_loop bus addr flags read_write command sz data_size 0 d [] h"

definition scd_smbus_access ::
  "scd_smbus \<Rightarrow> u16 \<Rightarrow> u16 \<Rightarrow> int \<Rightarrow> u8 \<Rightarrow> int \<Rightarrow> buf \<Rightarrow> hw \<Rightarrow> status \<times> buf \<times> hw" where
  "scd_smbus_access bus addr flags read_write command sz d h =
     scd_smbus_access_impl bus addr flags read_write command sz d (I2C_SMBUS_BLOCK_MAX + 2) h"


declare smbus_master_read_resp_loop.simps [simp del]
declare scd_smbus_block_read_issue.simps [simp del]
declare scd_smbus_block_read_wait.simps [simp del]
declare scd_smbus_block_read_poll.simps [simp del]
declare scd_smbus_do_impl_issue.simps [simp del]
declare scd_smbus_do_impl_poll.simps [simp del]
declare scd_smbus_do_impl.simps [simp del]
declare scd_smbus_access_impl_loop.simps [simp del]

subsection \<open>The registry and the configuration files\<close>

text \<open>
  \<^verbatim>\<open>struct scd_context\<close>: the \<open>initialized\<close> flag, the size of the register window and the
  list of SMBus masters, each with its buses and their per-address parameters. The other
  object lists of the context (GPIOs, LEDs, resets, transceivers, fans, MDIO masters) hold
  what the handlers of \<^verbatim>\<open>new_object\<close> register with other kernel subsystems.
\<close>

record scd_context =
  initialized :: bool
  res_size :: nat
  smbus_master_list :: "scd_smbus_master list"

text \<open>
  \<^verbatim>\<open>scd_find_smbus\<close>: the first bus whose adapter number is \<open>bus_nr\<close>, as the position
  of its master in the list and of the bus in the master's list.
\<close>

fun find_bus_index :: "scd_smbus list \<Rightarrow> int \<Rightarrow> nat option" where
  "find_bus_index [] bus_nr = None"
| "find_bus_index (b # bs) bus_nr =
     (if adap_nr b \<noteq> bus_nr then map_option Suc (find_bus_index bs bus_nr) else Some 0)"

fun find_smbus_in :: "scd_smbus_master list \<Rightarrow> int \<Rightarrow> (nat \<times> nat) option" where
  "find_smbus_in [] bus_nr = None"
| "find_smbus_in (m # ms) bus_nr =
     (case find_bus_index (bus_list m) bus_nr of
        Some j \<Rightarrow> Some (0, j)
      | None \<Rightarrow> map_option (\<lambda>(i, j). (Suc i, j)) (find_smbus_in ms bus_nr))"

definition scd_find_smbus :: "scd_context \<Rightarrow> u16 \<Rightarrow> (nat \<times> nat) option" where
  "scd_find_smbus ctx bus_nr = find_smbus_in (smbus_master_list ctx) (uint bus_nr)"

definition ctx_bus :: "scd_context \<Rightarrow> nat \<times> nat \<Rightarrow> scd_smbus" where
  "ctx_bus ctx ij = bus_list (smbus_master_list ctx ! fst ij) ! snd ij"

definition ctx_bus_update :: "scd_context \<Rightarrow> nat \<times> nat \<Rightarrow> scd_smbus \<Rightarrow> scd_context" where
  "ctx_bus_update ctx ij b =
     ctx\<lparr>smbus_master_list :=
           (smbus_master_list ctx)
             [fst ij := (smbus_master_list ctx ! fst ij)
                          \<lparr>bus_list := (bus_list (smbus_master_list ctx ! fst ij))[snd ij := b]\<rparr>]\<rparr>"

text \<open>
  The first loop of \<^verbatim>\<open>scd_set_smbus_params\<close>: overwrite the entry of the address if
  there is one (\<open>None\<close> if there is none).
\<close>

fun set_params_in_place :: "bus_params list \<Rightarrow> bus_params \<Rightarrow> bus_params list option" where
  "set_params_in_place [] new = None"
| "set_params_in_place (p # ps) new =
     (if p_addr p = p_addr new
      then Some (p\<lparr>p_t := p_t new, p_datw := p_datw new, p_datr := p_datr new,
                   p_ed := p_ed new\<rparr> # ps)
      else map_option ((#) p) (set_params_in_place ps new))"

definition scd_set_smbus_params ::
  "scd_context \<Rightarrow> u16 \<Rightarrow> bus_params \<Rightarrow> hw \<Rightarrow> status \<times> scd_context \<times> hw" where
  "scd_set_smbus_params ctx bus new h =
     (case scd_find_smbus ctx bus of
        None \<Rightarrow> (Inl EINVAL, ctx, log_msg ''Cannot find bus to add tweak'' h)
      | Some ij \<Rightarrow>
          (case set_params_in_place (params (ctx_bus ctx ij)) new of
             Some ps \<Rightarrow> (Inr (), ctx_bus_update ctx ij ((ctx_bus ctx ij)\<lparr>params := ps\<rparr>), h)
           | None \<Rightarrow>
               (case kzalloc h of
                  (False, h1) \<Rightarrow> (Inl ENOMEM, ctx, h1)
                | (True, h1) \<Rightarrow>
                    (Inr (),
                     ctx_bus_update ctx ij
                       ((ctx_bus ctx ij)\<lparr>params := params (ctx_bus ctx ij)
                          @ [\<lparr>p_addr = p_addr new, p_t = p_t new, p_datw = p_datw new,
                              p_datr = p_datr new, p_ed = p_ed new\<rparr>]\<rparr>),
                     h1))))"

text \<open>
  C strings. A buffer is the list of its bytes; the byte after the last one is the
  terminating \<^verbatim>\<open>NUL\<close>. \<^verbatim>\<open>strsep\<close> works on a pointer that may be \<^verbatim>\<open>NULL\<close> (\<open>None\<close>).
\<close>

definition NUL :: char where "NUL = CHR 0x00"
definition NL :: char where "NL = CHR 0x0A"

fun strnchr :: "string \<Rightarrow> nat \<Rightarrow> char \<Rightarrow> nat option" where
  "strnchr s 0 c = None"
| "strnchr [] (Suc n) c = None"
| "strnchr (x # xs) (Suc n) c =
     (if x = c then Some 0 else if x = NUL then None else map_option Suc (strnchr xs n c))"

text \<open>\<^verbatim>\<open>strncpy(tmp, buf, count); tmp[count] = 0\<close>, read back as a C string.\<close>

definition strncpy :: "string \<Rightarrow> nat \<Rightarrow> string" where
  "strncpy buf count = takeWhile (\<lambda>c. c \<noteq> NUL) (take count buf)"

definition strsep :: "string option \<Rightarrow> string option \<times> string option" where
  "strsep ptr =
     (case ptr of
        None \<Rightarrow> (None, None)
      | Some s \<Rightarrow>
          (if CHR '' '' \<in> set s
           then (Some (takeWhile (\<lambda>c. c \<noteq> CHR '' '') s),
                 Some (tl (dropWhile (\<lambda>c. c \<noteq> CHR '' '') s)))
           else (Some s, None)))"

text \<open>
  The kernel's \<^verbatim>\<open>kstrtou8\<close>, \<^verbatim>\<open>kstrtou16\<close> and \<^verbatim>\<open>kstrtou32\<close> (with base 0) are not part of
  the driver: they are the parameter \<open>kstrto\<close>, from the width in bits and the token to
  the value or the error. \<^verbatim>\<open>PARSE_INT_OR_RETURN\<close> gives the value and the advanced
  pointer.
\<close>

type_synonym kstrto = "nat \<Rightarrow> string \<Rightarrow> errno + nat"

definition PARSE_INT_OR_RETURN ::
  "kstrto \<Rightarrow> nat \<Rightarrow> string option \<Rightarrow> errno + nat \<times> string option" where
  "PARSE_INT_OR_RETURN kstrto bits ptr =
     (case strsep ptr of
        (None, _) \<Rightarrow> Inl EINVAL
      | (Some tok, ptr') \<Rightarrow>
          (if tok = [] then Inl EINVAL
           else (case kstrto bits tok of Inl e \<Rightarrow> Inl e | Inr v \<Rightarrow> Inr (v, ptr'))))"

definition parse_smbus_tweak ::
  "kstrto \<Rightarrow> scd_context \<Rightarrow> string \<Rightarrow> nat \<Rightarrow> hw \<Rightarrow> (errno + nat) \<times> scd_context \<times> hw" where
  "parse_smbus_tweak kstrto ctx buf count h =
     (if MAX_CONFIG_LINE_SIZE \<le> count
      then (Inl EINVAL, ctx, log_msg ''smbus_tweak line is too long'' h)
      else
        (case PARSE_INT_OR_RETURN kstrto 16 (Some (strncpy buf count)) of
           Inl e \<Rightarrow> (Inl e, ctx, h)
         | Inr (bus, p1) \<Rightarrow>
        (case PARSE_INT_OR_RETURN kstrto 16 p1 of
           Inl e \<Rightarrow> (Inl e, ctx, h)
         | Inr (addr, p2) \<Rightarrow>
        (case PARSE_INT_OR_RETURN kstrto 8 p2 of
           Inl e \<Rightarrow> (Inl e, ctx, h)
         | Inr (t, p3) \<Rightarrow>
        (case PARSE_INT_OR_RETURN kstrto 8 p3 of
           Inl e \<Rightarrow> (Inl e, ctx, h)
         | Inr (datr, p4) \<Rightarrow>
        (case PARSE_INT_OR_RETURN kstrto 8 p4 of
           Inl e \<Rightarrow> (Inl e, ctx, h)
         | Inr (datw, p5) \<Rightarrow>
        (case PARSE_INT_OR_RETURN kstrto 8 p5 of
           Inl e \<Rightarrow> (Inl e, ctx, h)
         | Inr (ed, p6) \<Rightarrow>
        (case scd_set_smbus_params ctx (of_nat bus)
                \<lparr>p_addr = of_nat addr, p_t = of_nat t, p_datw = of_nat datw,
                 p_datr = of_nat datr, p_ed = of_nat ed\<rparr> h of
           (Inr _, ctx1, h1) \<Rightarrow> (Inr count, ctx1, h1)
         | (Inl e, ctx1, h1) \<Rightarrow> (Inl e, ctx1, h1)))))))))"

text \<open>
  \<^verbatim>\<open>parse_new_object\<close> looks the first token up in the table \<^verbatim>\<open>funcs\<close> and calls the
  handler found. The handlers create LEDs, GPIOs, resets, transceivers, fan groups and
  masters through other kernel subsystems; the table is a parameter here.
\<close>

type_synonym new_object_parse_func =
  "scd_context \<Rightarrow> string option \<Rightarrow> nat \<Rightarrow> hw \<Rightarrow> (errno + nat) \<times> scd_context \<times> hw"

definition parse_new_object ::
  "(string \<times> new_object_parse_func) list \<Rightarrow> scd_context \<Rightarrow> string \<Rightarrow> nat \<Rightarrow> hw
     \<Rightarrow> (errno + nat) \<times> scd_context \<times> hw" where
  "parse_new_object funcs ctx buf count h =
     (if MAX_CONFIG_LINE_SIZE \<le> count
      then (Inl EINVAL, ctx, log_msg ''new_object line is too long'' h)
      else
        (case strsep (Some (strncpy buf count)) of
           (None, _) \<Rightarrow> (Inl EINVAL, ctx, h)
         | (Some tok, ptr) \<Rightarrow>
             (case map_of funcs tok of
                None \<Rightarrow> (Inl EINVAL, ctx, h)
              | Some func \<Rightarrow>
                  (case func ctx ptr (count - (length tok + 1)) h of
                     (Inl e, ctx1, h1) \<Rightarrow> (Inl e, ctx1, h1)
                   | (Inr _, ctx1, h1) \<Rightarrow> (Inr count, ctx1, h1)))))"

text \<open>\<^verbatim>\<open>while (left && *buf == '\n') { buf++; left--; }\<close>\<close>

fun parse_lines_skip :: "string \<Rightarrow> nat \<Rightarrow> string \<times> nat" where
  "parse_lines_skip [] left = ([], left)"
| "parse_lines_skip (c # cs) left =
     (if left \<noteq> 0 \<and> c = NL then parse_lines_skip cs (left - 1) else (c # cs, left))"

text \<open>
  The \<^verbatim>\<open>while (true)\<close> loop of \<^verbatim>\<open>parse_lines\<close>. It ends when the parser has consumed
  the input; with a parser that is a parameter it need not, so that not returning is the
  value \<open>None\<close>.
\<close>

partial_function (option) parse_lines_loop ::
  "(scd_context \<Rightarrow> string \<Rightarrow> nat \<Rightarrow> hw \<Rightarrow> (errno + nat) \<times> scd_context \<times> hw)
     \<Rightarrow> nat \<Rightarrow> scd_context \<Rightarrow> string \<Rightarrow> nat \<Rightarrow> hw
     \<Rightarrow> ((errno + nat) \<times> scd_context \<times> hw) option" where
  "parse_lines_loop parser count ctx buf left h =
     (let nl = (case strnchr buf left NL of Some k \<Rightarrow> k | None \<Rightarrow> left)
      in case parser ctx buf nl h of
           (Inl e, ctx1, h1) \<Rightarrow> Some (Inl e, ctx1, h1)
         | (Inr res, ctx1, h1) \<Rightarrow>
             (case parse_lines_skip (drop nl buf) (left - res) of
                (buf2, left2) \<Rightarrow>
                  if left2 = 0 then Some (Inr count, ctx1, h1)
                  else parse_lines_loop parser count ctx1 buf2 left2 h1))"

definition parse_lines ::
  "scd_context \<Rightarrow> string \<Rightarrow> nat
     \<Rightarrow> (scd_context \<Rightarrow> string \<Rightarrow> nat \<Rightarrow> hw \<Rightarrow> (errno + nat) \<times> scd_context \<times> hw) \<Rightarrow> hw
     \<Rightarrow> ((errno + nat) \<times> scd_context \<times> hw) option" where
  "parse_lines ctx buf count parser h =
     (if count = 0 then Some (Inr 0, ctx, h) else parse_lines_loop parser count ctx buf count h)"

text \<open>
  The two store handlers of the configuration files. \<^verbatim>\<open>get_context_for_dev\<close> gives the
  context of the device or \<^verbatim>\<open>NULL\<close> (\<open>None\<close>).
\<close>

definition new_object ::
  "(string \<times> new_object_parse_func) list \<Rightarrow> scd_context option \<Rightarrow> string \<Rightarrow> nat \<Rightarrow> hw
     \<Rightarrow> ((errno + nat) \<times> scd_context option \<times> hw) option" where
  "new_object funcs dev buf count h =
     (case dev of
        None \<Rightarrow> Some (Inl ENODEV, None, h)
      | Some ctx \<Rightarrow>
          if initialized ctx then Some (Inl EBUSY, Some ctx, h)
          else map_option (\<lambda>(res, ctx1, h1). (res, Some ctx1, h1))
                 (parse_lines ctx buf count (parse_new_object funcs) h))"

definition smbus_tweaks ::
  "kstrto \<Rightarrow> scd_context option \<Rightarrow> string \<Rightarrow> nat \<Rightarrow> hw
     \<Rightarrow> ((errno + nat) \<times> scd_context option \<times> hw) option" where
  "smbus_tweaks kstrto dev buf count h =
     (case dev of
        None \<Rightarrow> Some (Inl ENODEV, None, h)
      | Some ctx \<Rightarrow>
          map_option (\<lambda>(res, ctx1, h1). (res, Some ctx1, h1))
            (parse_lines ctx buf count (parse_smbus_tweak kstrto) h))"

definition scd_ext_hwmon_finish_init :: "scd_context option \<Rightarrow> status \<times> scd_context option" where
  "scd_ext_hwmon_finish_init dev =
     (case dev of
        None \<Rightarrow> (Inl ENODEV, None)
      | Some ctx \<Rightarrow> (Inr (), Some (ctx\<lparr>initialized := True\<rparr>)))"


subsection \<open>The MDIO engine\<close>

text \<open>
  The header \<^verbatim>\<open>scd-mdio.h\<close> is not among the sources at hand. What the functions below
  use of it is a parameter: the wait macros (\<^verbatim>\<open>MDIO_WAIT_INITIAL\<close>,
  \<^verbatim>\<open>MDIO_WAIT_MAX_UDELAY\<close>, \<^verbatim>\<open>MDIO_WAIT_END\<close>, \<^verbatim>\<open>MDIO_WAIT_NEXT\<close>) and the layout of
  the four register unions, as the functions that read a field from a register value or
  build a register value from the fields the driver sets (every other field zero).
\<close>

datatype mdio_operation = SCD_MDIO_SET | SCD_MDIO_READ | SCD_MDIO_WRITE

record scd_mdio_h =
  MDIO_WAIT_INITIAL :: nat
  MDIO_WAIT_MAX_UDELAY :: nat
  MDIO_WAIT_END :: "nat \<Rightarrow> bool"
  MDIO_WAIT_NEXT :: "nat \<Rightarrow> nat"
  mdio_cs_reg :: "u32 \<Rightarrow> bool \<Rightarrow> u32"
  mdio_cs_res_count :: "u32 \<Rightarrow> nat"
  mdio_req_lo_reg :: "u32 \<Rightarrow> int \<Rightarrow> mdio_operation \<Rightarrow> int \<Rightarrow> int \<Rightarrow> u16 \<Rightarrow> u32"
  mdio_req_hi_reg :: "u8 \<Rightarrow> u32"
  mdio_resp_ts :: "u32 \<Rightarrow> nat"
  mdio_resp_fe :: "u32 \<Rightarrow> nat"
  mdio_resp_d :: "u32 \<Rightarrow> int"

text \<open>
  \<open>mdio_cs_reg H sp fe\<close> is the control/status value with the fields \<open>sp\<close> and \<open>fe\<close> set;
  \<open>mdio_req_lo_reg H bs t op dt pa d\<close> and \<open>mdio_req_hi_reg H ri\<close> are the request values.
\<close>

record scd_mdio_master =
  md_id :: u32
  md_req_lo :: u32
  md_req_hi :: u32
  md_cs :: u32
  md_resp :: u32
  md_speed :: u32
  md_req_id :: u8

record scd_mdio_bus =
  mdio_master :: scd_mdio_master
  mdio_bus_id :: u32

definition mdio_master_read_cs :: "scd_mdio_master \<Rightarrow> hw \<Rightarrow> u32 \<times> hw" where
  "mdio_master_read_cs m h = scd_read_register (md_cs m) h"

definition mdio_master_write_cs :: "scd_mdio_master \<Rightarrow> u32 \<Rightarrow> hw \<Rightarrow> hw" where
  "mdio_master_write_cs m cs h = scd_write_register (md_cs m) cs h"

definition mdio_master_reset_interrupt :: "scd_mdio_h \<Rightarrow> scd_mdio_master \<Rightarrow> hw \<Rightarrow> hw" where
  "mdio_master_reset_interrupt H m h = mdio_master_write_cs m (mdio_cs_reg H (md_speed m) True) h"

text \<open>
  The loop of \<^verbatim>\<open>mdio_master_wait_response\<close>. Whether it ends depends on the macros, so
  not returning is the value \<open>None\<close>.
\<close>

partial_function (option) mdio_master_wait_response_loop ::
  "scd_mdio_h \<Rightarrow> scd_mdio_master \<Rightarrow> nat \<Rightarrow> hw \<Rightarrow> (status \<times> hw) option" where
  "mdio_master_wait_response_loop H m delay h =
     (if MDIO_WAIT_END H delay
      then Some (Inl EAGAIN, log_msg ''mdio wait_resp timeout'' h)
      else (case mdio_master_read_cs m h of
              (cs, h1) \<Rightarrow>
                if mdio_cs_res_count H cs = 1 then Some (Inr (), h1)
                else if mdio_cs_res_count H cs = 0
                then mdio_master_wait_response_loop H m (MDIO_WAIT_NEXT H delay)
                       (if delay < MDIO_WAIT_MAX_UDELAY H then udelay delay h1
                        else msleep (delay div 1000) h1)
                else Some (Inl EOPNOTSUPP, log_msg ''mdio wait_resp failed'' h1)))"

definition mdio_master_wait_response ::
  "scd_mdio_h \<Rightarrow> scd_mdio_master \<Rightarrow> hw \<Rightarrow> (status \<times> hw) option" where
  "mdio_master_wait_response H m h = mdio_master_wait_response_loop H m (MDIO_WAIT_INITIAL H) h"

definition mdio_master_get_req_id :: "scd_mdio_master \<Rightarrow> u8 \<times> scd_mdio_master" where
  "mdio_master_get_req_id m = (md_req_id m, m\<lparr>md_req_id := md_req_id m + 1\<rparr>)"

text \<open>
  \<^verbatim>\<open>scd_mdio_bus_request\<close> returns an \<^verbatim>\<open>s32\<close>: \<open>Inl e\<close> is \<open>-e\<close>, \<open>Inr v\<close> the value \<open>v\<close>
  (the data of a read, \<open>0\<close> otherwise). The master comes back with its request id
  advanced.
\<close>

definition scd_mdio_bus_request ::
  "scd_mdio_h \<Rightarrow> scd_mdio_bus \<Rightarrow> mdio_operation \<Rightarrow> int \<Rightarrow> int \<Rightarrow> int \<Rightarrow> u16 \<Rightarrow> hw
     \<Rightarrow> ((errno + int) \<times> scd_mdio_bus \<times> hw) option" where
  "scd_mdio_bus_request H mdio_bus op clause prtad devad data h =
     (let m = mdio_master mdio_bus;
          h1 = mdio_master_reset_interrupt H m h;
          h2 = scd_write_register (md_req_lo m)
                 (mdio_req_lo_reg H (mdio_bus_id mdio_bus) clause op devad prtad data) h1
      in case mdio_master_get_req_id m of
           (ri, m1) \<Rightarrow>
             (let h3 = scd_write_register (md_req_hi m1) (mdio_req_hi_reg H ri) h2;
                  bus1 = mdio_bus\<lparr>mdio_master := m1\<rparr>
              in case mdio_master_wait_response H m1 h3 of
                   None \<Rightarrow> None
                 | Some (Inl e, h4) \<Rightarrow> Some (Inl e, bus1, h4)
                 | Some (Inr _, h4) \<Rightarrow>
                     (case scd_read_register (md_resp m1) (mdio_master_reset_interrupt H m1 h4) of
                        (resp, h5) \<Rightarrow>
                          if mdio_resp_ts H resp \<noteq> 1 \<or> mdio_resp_fe H resp = 1
                          then Some (Inl EIO, bus1,
                                     log_msg ''mdio bus request failed in reading resp'' h5)
                          else if op = SCD_MDIO_READ then Some (Inr (mdio_resp_d H resp), bus1, h5)
                          else Some (Inr 0, bus1, h5))))"


subsection \<open>What the specification says, and example values\<close>

text \<open>
  The validation order as the specification lists it: framing error, ack error, timeout
  error, bus conflict error, flushed, transaction-id mismatch, overflow; each check with
  its reason. The first check that holds decides.
\<close>

definition spec_validation_order :: "u32 \<Rightarrow> u32 \<Rightarrow> (bool \<times> string) list" where
  "spec_validation_order resp tid =
     [(resp_fe resp, ''fe''), (resp_ack_error resp, ''ack''),
      (resp_timeout_error resp, ''timeout''), (resp_bus_conflict_error resp, ''conflict''),
      (resp_flushed resp, ''flush''), (ucast (resp_ti resp) \<noteq> tid, ''tid''),
      (resp_foe resp, ''overflow'')]"

text \<open>
  The events of polling the control/status register at offset \<open>off\<close> with the values
  \<open>css\<close> read one after the other, 10 ms apart.
\<close>

definition cs_poll_events :: "u32 \<Rightarrow> u32 list \<Rightarrow> event list" where
  "cs_poll_events off css =
     (case css of
        [] \<Rightarrow> []
      | c # cs \<Rightarrow> RegRead off c # concat (map (\<lambda>v. [Msleep 10, RegRead off v]) cs))"

text \<open>A master at base address \<open>0x8000\<close> and one of its buses, without hardware block read.\<close>

definition ex_master :: smbus_master_regs where
  "ex_master = \<lparr>m_id = 0, m_req = 0x8010, m_cs = 0x8020, m_resp = 0x8030,
     br_supported = False, max_retries = 6\<rparr>"

definition ex_bus :: scd_smbus where
  "ex_bus = \<lparr>master = ex_master, bus_id = 2, params = [], adap_nr = 5\<rparr>"

text \<open>A device whose response fifo stays empty: every register reads as \<open>0\<close>.\<close>

definition ex_hw_silent :: hw where
  "ex_hw_silent = \<lparr>feed = (\<lambda>off n. 0), nreads = (\<lambda>off. 0), trace = [],
     alloc_ok = (\<lambda>n. True), nallocs = 0\<rparr>"

text \<open>
  Projections of a trace: the values written to a register, the values read from it, the
  stores into the data buffer. An event is passive when it is neither a register write
  nor a store.
\<close>

fun reg_writes :: "u32 \<Rightarrow> event list \<Rightarrow> u32 list" where
  "reg_writes off [] = []"
| "reg_writes off (RegWrite a v # es) =
     (if a = off then v # reg_writes off es else reg_writes off es)"
| "reg_writes off (_ # es) = reg_writes off es"

fun reg_reads :: "u32 \<Rightarrow> event list \<Rightarrow> u32 list" where
  "reg_reads off [] = []"
| "reg_reads off (RegRead a v # es) =
     (if a = off then v # reg_reads off es else reg_reads off es)"
| "reg_reads off (_ # es) = reg_reads off es"

fun stores :: "event list \<Rightarrow> (nat \<times> u8) list" where
  "stores [] = []"
| "stores (Store k v # es) = (k, v) # stores es"
| "stores (_ # es) = stores es"

fun is_passive :: "event \<Rightarrow> bool" where
  "is_passive (RegWrite a v) = False"
| "is_passive (Store k v) = False"
| "is_passive _ = True"

text \<open>
  The master reset as the specification describes it: with the control/status value \<open>v\<close>
  read first, drive the reset bit (31) and the overflow-clear bit (13), hold 50 ms, clear
  the reset bit, hold 50 ms again.
\<close>

definition spec_master_reset_events :: "u32 \<Rightarrow> u32 \<Rightarrow> event list" where
  "spec_master_reset_events off v =
     [RegRead off v, RegWrite off (set_bit 31 (set_bit 13 v)), Mdelay 50,
      RegWrite off (unset_bit 31 (set_bit 13 v)), Mdelay 50]"

text \<open>The data buffer after a list of stores, applied in order.\<close>

definition apply_stores :: "(nat \<times> u8) list \<Rightarrow> buf \<Rightarrow> buf" where
  "apply_stores kvs d = fold (\<lambda>(k, v) d. d(k := v)) kvs d"

text \<open>
  The transfer sizes whose read data is a block: every size but byte, byte-data and
  word-data.
\<close>

definition is_block_size :: "int \<Rightarrow> bool" where
  "is_block_size sz =
     (sz \<noteq> I2C_SMBUS_BYTE \<and> sz \<noteq> I2C_SMBUS_BYTE_DATA \<and> sz \<noteq> I2C_SMBUS_WORD_DATA)"

text \<open>
  What holds of a run of the response loop of \<^verbatim>\<open>scd_smbus_do_impl\<close> from phase \<open>i\<close>
  in state \<open>h\<close> with buffer \<open>d\<close>: the trace grows by events that write no register, the
  buffer is the old one with the stores of these events applied, a block transfer stores
  below \<open>data_size\<close> only, a failure happens right after the read of a response (one
  that fails validation, or one whose data has no room), and a success has read one valid
  response per phase.
\<close>

definition poll_inv ::
  "smbus_master_regs \<Rightarrow> int \<Rightarrow> int \<Rightarrow> int \<Rightarrow> nat \<Rightarrow> string \<Rightarrow> nat \<Rightarrow> 4 word \<Rightarrow> buf \<Rightarrow> hw
     \<Rightarrow> status \<times> buf \<times> string \<times> hw \<Rightarrow> bool" where
  "poll_inv m rw sz ds ss fr i tid d h res =
     (case res of
        (st, d', fr', h') \<Rightarrow>
          (\<exists>evs. trace h' = trace h @ evs \<and> (\<forall>off. reg_writes off evs = [])
             \<and> feed h' = feed h
             \<and> d' = apply_stores (stores evs) d
             \<and> (is_block_size sz \<longrightarrow> (\<forall>kv\<in>set (stores evs). int (fst kv) < ds))
             \<and> (\<forall>e. st = Inl e \<longrightarrow>
                  (\<exists>pre r. evs = pre @ [RegRead (m_resp m) r]
                     \<and> ((e = EIO \<and> (\<exists>t. smbus_resp_error r t \<noteq> None))
                        \<or> (e = EINVAL \<and> is_block_size sz \<and> rw = I2C_SMBUS_READ
                            \<and> fr' = ''buffer too short''))))
             \<and> (st = Inr () \<longrightarrow> fr' = fr
                  \<and> (m_cs m \<noteq> m_resp m \<longrightarrow>
                       length (reg_reads (m_resp m) evs) = ss - i
                       \<and> (\<forall>k < ss - i. smbus_resp_error (reg_reads (m_resp m) evs ! k)
                                         (ucast (tid + of_nat k)) = None)))))"

text \<open>
  What the requests \<open>rs\<close> issued by the request loop of \<^verbatim>\<open>scd_smbus_do_impl\<close> from phase
  \<open>i\<close> with the request \<open>req\<close> carry: consecutive transaction-ids, the timing class and
  bus of \<open>req\<close>, and on the last phase the stop marker, the early-data flag and the data
  width of the bus parameters \<open>ps\<close>.
\<close>

definition phases_ok ::
  "bus_params \<Rightarrow> int \<Rightarrow> nat \<Rightarrow> nat \<Rightarrow> smbus_request_reg \<Rightarrow> smbus_request_reg list \<Rightarrow> bool" where
  "phases_ok ps rw ss i req rs =
     (length rs = ss - i
      \<and> (\<forall>k < ss - i.
            req_ti (rs ! k) = req_ti req + of_nat k
          \<and> req_t (rs ! k) = req_t req
          \<and> req_bs (rs ! k) = req_bs req
          \<and> (i + k + 1 = ss \<longrightarrow>
                req_sp (rs ! k) \<and> req_ed (rs ! k) = bit (p_ed ps) 0
              \<and> req_dat (rs ! k)
                  = ucast (if rw = I2C_SMBUS_WRITE then p_datw ps else p_datr ps))
          \<and> (i + k + 1 < ss \<longrightarrow>
                req_dat (rs ! k) = req_dat req \<and> req_ed (rs ! k) = req_ed req)))"

text \<open>
  What holds of the events \<open>evs\<close> of one exchange of \<open>ss\<close> phases
  (\<^verbatim>\<open>scd_smbus_do_impl\<close> from \<^verbatim>\<open>req.st = 1\<close> on) and of its result: the requests, then
  the events of the response loop, then nothing on success and the master reset on
  failure.
\<close>

definition xfer_ok ::
  "scd_smbus \<Rightarrow> u16 \<Rightarrow> int \<Rightarrow> int \<Rightarrow> int \<Rightarrow> nat \<Rightarrow> string \<Rightarrow> buf \<Rightarrow> event list
     \<Rightarrow> status \<times> buf \<times> string \<Rightarrow> bool" where
  "xfer_ok bus addr rw sz ds ss fr d evs res =
     (case res of
        (st, d', fr') \<Rightarrow>
          (\<exists>rs pevs tail.
             evs = map (\<lambda>r. RegWrite (m_req (master bus)) (req_reg r)) rs @ pevs @ tail
           \<and> phases_ok (get_smbus_params bus addr) rw ss 0
                (req_zero\<lparr>req_bs := ucast (bus_id bus),
                            req_t := ucast (p_t (get_smbus_params bus addr))\<rparr>) rs
           \<and> (\<forall>off. reg_writes off pevs = [])
           \<and> d' = apply_stores (stores pevs) d
           \<and> (is_block_size sz \<longrightarrow> (\<forall>kv\<in>set (stores pevs). int (fst kv) < ds))
           \<and> (\<forall>e. st = Inl e \<longrightarrow>
                (\<exists>v. tail = spec_master_reset_events (m_cs (master bus)) v)
                \<and> (\<exists>pre r. pevs = pre @ [RegRead (m_resp (master bus)) r]
                     \<and> ((e = EIO \<and> (\<exists>t. smbus_resp_error r t \<noteq> None))
                        \<or> (e = EINVAL \<and> is_block_size sz \<and> rw = I2C_SMBUS_READ
                            \<and> fr' = ''buffer too short''))))
           \<and> (st = Inr () \<longrightarrow> tail = [] \<and> fr' = fr
                \<and> (m_cs (master bus) \<noteq> m_resp (master bus) \<longrightarrow>
                     length (reg_reads (m_resp (master bus)) pevs) = ss
                     \<and> (\<forall>k < ss. smbus_resp_error (reg_reads (m_resp (master bus)) pevs ! k)
                                      (ucast (of_nat k :: 4 word)) = None)))))"

text \<open>
  What holds of a run of the response loop of \<^verbatim>\<open>scd_smbus_block_read\<close>: as for the
  generic loop, with every store below \<open>data_size\<close>; the capacity exit logs a warning
  after the read of the response.
\<close>

definition block_read_poll_inv ::
  "smbus_master_regs \<Rightarrow> int \<Rightarrow> 4 word \<Rightarrow> buf \<Rightarrow> hw \<Rightarrow> status \<times> buf \<times> hw \<Rightarrow> bool" where
  "block_read_poll_inv m ds tid d h res =
     (case res of
        (st, d', h') \<Rightarrow>
          (\<exists>evs. trace h' = trace h @ evs \<and> (\<forall>off. reg_writes off evs = [])
             \<and> feed h' = feed h
             \<and> d' = apply_stores (stores evs) d
             \<and> (\<forall>kv\<in>set (stores evs). int (fst kv) < ds)
             \<and> (\<forall>e. st = Inl e \<longrightarrow>
                  (\<exists>pre r. (e = EIO \<and> evs = pre @ [RegRead (m_resp m) r]
                              \<and> (\<exists>t. smbus_resp_error r t \<noteq> None))
                        \<or> (e = EINVAL
                            \<and> evs = pre @ [RegRead (m_resp m) r,
                                            Log ''smbus read failed (output too big)''])))
             \<and> (st = Inr () \<longrightarrow> m_cs m \<noteq> m_resp m \<longrightarrow>
                  (\<forall>k < length (reg_reads (m_resp m) evs).
                      smbus_resp_error (reg_reads (m_resp m) evs ! k)
                        (ucast (tid + of_nat k)) = None))))"

text \<open>The events and the result of \<^verbatim>\<open>scd_smbus_block_read\<close>.\<close>

definition block_read_ok ::
  "scd_smbus \<Rightarrow> u16 \<Rightarrow> int \<Rightarrow> buf \<Rightarrow> event list \<Rightarrow> status \<times> buf \<Rightarrow> bool" where
  "block_read_ok bus addr ds d evs res =
     (case res of
        (st, d') \<Rightarrow>
          (\<exists>rs pevs.
             evs = map (\<lambda>r. RegWrite (m_req (master bus)) (req_reg r)) rs @ pevs
           \<and> length rs = 3
           \<and> (\<forall>k < 3. req_ti (rs ! k) = of_nat k
                  \<and> req_t (rs ! k) = ucast (p_t (get_smbus_params bus addr))
                  \<and> req_dat (rs ! k) = 0 \<and> \<not> req_ed (rs ! k))
           \<and> (\<forall>off. reg_writes off pevs = [])
           \<and> d' = apply_stores (stores pevs) d
           \<and> (\<forall>kv\<in>set (stores pevs). int (fst kv) < ds)
           \<and> (st = Inl EIO \<longrightarrow>
                (\<exists>pre r. pevs = pre @ [RegRead (m_resp (master bus)) r]
                    \<and> (\<exists>t. smbus_resp_error r t \<noteq> None)))
           \<and> (st = Inr () \<longrightarrow> m_cs (master bus) \<noteq> m_resp (master bus) \<longrightarrow>
                (\<forall>k < length (reg_reads (m_resp (master bus)) pevs).
                    smbus_resp_error (reg_reads (m_resp (master bus)) pevs ! k)
                      (ucast (of_nat k :: 4 word)) = None))))"

text \<open>
  The events and the result of \<^verbatim>\<open>scd_smbus_do_impl\<close>, by the path taken: the
  hardware-assisted block read, the generic block read (a byte-data exchange that probes
  the length, then the exchange itself), or one exchange.
\<close>

definition do_impl_ok ::
  "scd_smbus \<Rightarrow> u16 \<Rightarrow> int \<Rightarrow> int \<Rightarrow> int \<Rightarrow> string \<Rightarrow> buf \<Rightarrow> event list
     \<Rightarrow> status \<times> buf \<times> string \<Rightarrow> bool" where
  "do_impl_ok bus addr rw sz ds fr d evs res =
     (case res of
        (st, d', fr') \<Rightarrow>
          if sz = I2C_SMBUS_BLOCK_DATA \<and> rw \<noteq> I2C_SMBUS_WRITE
          then (if br_supported (master bus)
                then (\<exists>bevs tail. evs = bevs @ tail
                        \<and> block_read_ok bus addr ds d bevs (st, d')
                        \<and> (st = Inr () \<longrightarrow> tail = [] \<and> fr' = fr)
                        \<and> (\<forall>e. st = Inl e \<longrightarrow>
                              (\<exists>v. tail = spec_master_reset_events (m_cs (master bus)) v)))
                else (\<exists>evs1 st1 d1 fr1.
                        xfer_ok bus addr I2C_SMBUS_READ I2C_SMBUS_BYTE_DATA ds 4 [] d evs1
                          (st1, d1, fr1)
                        \<and> (case st1 of
                              Inl e \<Rightarrow>
                                st = Inl e \<and> d' = d1
                                \<and> (\<exists>v. evs = evs1
                                          @ spec_master_reset_events (m_cs (master bus)) v)
                            | Inr _ \<Rightarrow>
                                (\<exists>evs2. evs = evs1 @ evs2
                                   \<and> xfer_ok bus addr rw sz ds (4 + unat (d1 0)) fr d1 evs2
                                        (st, d', fr')))))
          else xfer_ok bus addr rw sz ds (snd (scd_smbus_do_impl_ss rw sz d ds)) fr d evs
                 (st, d', fr'))"

text \<open>The parts of the result of \<^verbatim>\<open>scd_smbus_do_impl\<close>.\<close>

definition r_status :: "status \<times> buf \<times> string \<times> hw \<Rightarrow> status" where
  "r_status R = fst R"

definition r_data :: "status \<times> buf \<times> string \<times> hw \<Rightarrow> buf" where
  "r_data R = fst (snd R)"

definition r_reason :: "status \<times> buf \<times> string \<times> hw \<Rightarrow> string" where
  "r_reason R = fst (snd (snd R))"

definition r_hw :: "status \<times> buf \<times> string \<times> hw \<Rightarrow> hw" where
  "r_hw R = snd (snd (snd R))"


text \<open>
  A device that answers every phase with an ack error, and one that answers the \<open>n\<close>-th
  read of the response register with transaction-id \<open>n mod 16\<close> and data \<open>0xA0 + n mod 16\<close>;
  both report a non-empty fifo.
\<close>

definition ex_hw_nack :: hw where
  "ex_hw_nack = \<lparr>feed = (\<lambda>off n. if off = 0x8030 then 0x400 else 1), nreads = (\<lambda>off. 0),
     trace = [], alloc_ok = (\<lambda>n. True), nallocs = 0\<rparr>"

definition ex_hw_echo :: hw where
  "ex_hw_echo = \<lparr>feed = (\<lambda>off n. if off = 0x8030
                                   then push_bit 12 (word_of_nat n) OR (0xA0 + word_of_nat (n mod 16))
                                   else 1),
     nreads = (\<lambda>off. 0), trace = [], alloc_ok = (\<lambda>n. True), nallocs = 0\<rparr>"

text \<open>A buffer of zeros, and one whose length byte \<open>block[0]\<close> is \<open>n\<close>.\<close>

definition ex_buf :: "nat \<Rightarrow> buf" where
  "ex_buf n = (\<lambda>k. if k = 0 then of_nat n else 0)"

text \<open>
  The transaction-ids stamped on the phases written to the request register at \<open>off\<close>, in
  the order issued, and the events a call appended to the trace.
\<close>

definition phase_tids :: "u32 \<Rightarrow> event list \<Rightarrow> nat list" where
  "phase_tids off evs = map (\<lambda>v. unat (req_ti (reg_req v))) (reg_writes off evs)"

definition new_events :: "hw \<Rightarrow> hw \<Rightarrow> event list" where
  "new_events h h' = drop (length (trace h)) (trace h')"

text \<open>
  The phase counts of the table of section 4.2 of the specification, by shape and
  direction: quick 1/1, byte 2/2, byte-data 3/4, word-data 4/5, address-prefixed block
  \<open>2 + len\<close>/\<open>3 + len\<close>, block with a length-prefixed buffer \<open>2 + buf[0]\<close>/\<open>3 + buf[0]\<close>.
  The last row is the one that names the hardware-assisted path, so both shapes whose
  buffer starts with its length (\<^verbatim>\<open>I2C_SMBUS_I2C_BLOCK_DATA\<close> and \<^verbatim>\<open>I2C_SMBUS_BLOCK_DATA\<close>) are
  read from it.
\<close>

definition spec_phase_count :: "int \<Rightarrow> int \<Rightarrow> buf \<Rightarrow> int \<Rightarrow> nat option" where
  "spec_phase_count rw sz d len =
     (if sz = I2C_SMBUS_QUICK then Some 1
      else if sz = I2C_SMBUS_BYTE then Some 2
      else if sz = I2C_SMBUS_BYTE_DATA then Some (if rw = I2C_SMBUS_WRITE then 3 else 4)
      else if sz = I2C_SMBUS_WORD_DATA then Some (if rw = I2C_SMBUS_WRITE then 4 else 5)
      else if sz = I2C_SMBUS_I2C_BLOCK_DATA_MSG
      then Some (if rw = I2C_SMBUS_WRITE then 2 + nat len else 3 + nat len)
      else if sz = I2C_SMBUS_I2C_BLOCK_DATA \<or> sz = I2C_SMBUS_BLOCK_DATA
      then Some (if rw = I2C_SMBUS_WRITE then 2 + unat (d 0) else 3 + unat (d 0))
      else None)"

text \<open>
  The result of the \<open>k\<close>-th of consecutive executions of \<^verbatim>\<open>scd_smbus_do\<close> (counted from 0),
  each starting from the buffer, the reason string and the device state the one before
  left, as the loop of \<^verbatim>\<open>scd_smbus_access_impl\<close> runs them.
\<close>

fun scd_smbus_do_nth ::
  "scd_smbus \<Rightarrow> u16 \<Rightarrow> u16 \<Rightarrow> int \<Rightarrow> u8 \<Rightarrow> int \<Rightarrow> int \<Rightarrow> nat \<Rightarrow> buf \<Rightarrow> string \<Rightarrow> hw
     \<Rightarrow> status \<times> buf \<times> string \<times> hw" where
  "scd_smbus_do_nth bus addr flags rw cmd sz ds 0 d fr h =
     scd_smbus_do bus addr flags rw cmd sz d ds fr h"
| "scd_smbus_do_nth bus addr flags rw cmd sz ds (Suc k) d fr h =
     (case scd_smbus_do bus addr flags rw cmd sz d ds fr h of
        (st, d1, fr1, h1) \<Rightarrow> scd_smbus_do_nth bus addr flags rw cmd sz ds k d1 fr1 h1)"

text \<open>
  The number of executions of a transaction that fails with \<open>-EIO\<close> every time: the body of
  the \<^verbatim>\<open>do ... while\<close> loop runs once, then again while \<open>retry < max_retries\<close>.
\<close>

definition smbus_attempts :: "scd_smbus \<Rightarrow> nat" where
  "smbus_attempts bus = max 1 (nat (max_retries (master bus)))"

text \<open>The example bus on a master with \<open>max_retries = n\<close>.\<close>

definition ex_bus_retries :: "int \<Rightarrow> scd_smbus" where
  "ex_bus_retries n = ex_bus\<lparr>master := ex_master\<lparr>max_retries := n\<rparr>\<rparr>"

text \<open>
  The responses \<open>rs\<close>, in the order read, all pass validation, the \<open>k\<close>-th against the
  transaction-id \<open>tid + k\<close> of the 4-bit counter: the counter of the response loops starts at
  \<open>tid\<close> and is incremented after each valid response.
\<close>

definition valid_from :: "4 word \<Rightarrow> u32 list \<Rightarrow> bool" where
  "valid_from tid rs =
     (\<forall>k < length rs. smbus_resp_error (rs ! k) (ucast (tid + of_nat k)) = None)"




section \<open>Properties\<close>

subsection \<open>Traces of the register accesses\<close>

lemma trace_emit [simp]: "trace (emit e h) = trace h @ [e]"
  by (simp add: emit_def)

lemma trace_scd_read_register:
  "trace (snd (scd_read_register off h))
     = trace h @ [RegRead off (fst (scd_read_register off h))]"
  by (simp add: scd_read_register_def Let_def)

subsection \<open>Response validation\<close>

text \<open>
  C2. For every response register value and expected transaction-id,
  \<^verbatim>\<open>smbus_check_resp\<close> reports the first check that holds in the order framing error,
  ack error, timeout error, bus conflict error, flushed, transaction-id mismatch,
  overflow: the status is \<open>-EIO\<close> and the reason written to a non-null buffer is
  \<open>bad response:\<close> followed by the name of that check; the seven reasons are pairwise
  distinct. A response for which no check holds (so its transaction-id matches) gets
  status \<open>0\<close> and leaves the reason buffer as it was.
\<close>

theorem smbus_check_resp_order:
  "smbus_check_resp resp tid fr =
     (case find fst (spec_validation_order resp tid) of
        None \<Rightarrow> (Inr (), fr)
      | Some (_, e) \<Rightarrow> (Inl EIO, map_option (\<lambda>_. ''bad response: '' @ e) fr))
   \<and> distinct (map (\<lambda>(c, e). SET_FAIL_REASON (''bad response: '' @ e))
                 (spec_validation_order resp tid))"
  by (cases fr)
     (simp_all add: smbus_check_resp_def smbus_resp_error_def spec_validation_order_def
        SET_FAIL_REASON_def FAIL_REASON_MAX_SZ_def)

subsection \<open>Reading a response\<close>

lemma smbus_master_read_resp_loop_trace:
  "retries \<noteq> 0 \<Longrightarrow>
   \<exists>more. length more \<le> unat retries - 1
     \<and> (\<forall>c\<in>set (butlast (cs # more)). cs_fs c = 0)
     \<and> (cs_fs (last (cs # more)) = 0 \<longrightarrow> length more = unat retries - 1)
     \<and> fst (smbus_master_read_resp_loop m retries cs h) = last (cs # more)
     \<and> trace (snd (smbus_master_read_resp_loop m retries cs h))
         = trace h @ concat (map (\<lambda>v. [Msleep 10, RegRead (m_cs m) v]) more)"
proof (induction m retries cs h rule: smbus_master_read_resp_loop.induct)
  case (1 m retries cs h)
  have dec: "unat (retries - 1) = unat retries - 1"
    using 1(2) by (simp add: unat_minus_one)
  show ?case
  proof (cases "cs_fs cs = 0 \<and> retries - 1 \<noteq> 0")
    case False
    then have "cs_fs cs = 0 \<Longrightarrow> unat retries - 1 = 0"
      using dec by (auto simp: unat_eq_0)
    with False show ?thesis
      by (subst (1 2) smbus_master_read_resp_loop.simps, intro exI [of _ "[]"]) auto
  next
    case True
    obtain c1 h1 where rd: "smbus_master_read_cs m (msleep 10 h) = (c1, h1)"
      by (cases "smbus_master_read_cs m (msleep 10 h)")
    have tr1: "trace h1 = trace h @ [Msleep 10, RegRead (m_cs m) c1]"
      using rd trace_scd_read_register [of "m_cs m" "msleep 10 h"]
      by (simp add: smbus_master_read_cs_def msleep_def)
    have "retries - 1 \<noteq> 0" using True by simp
    from 1(1) [OF True rd [symmetric] this]
    obtain more where m: "length more \<le> unat (retries - 1) - 1"
      "\<forall>c\<in>set (butlast (c1 # more)). cs_fs c = 0"
      "cs_fs (last (c1 # more)) = 0 \<longrightarrow> length more = unat (retries - 1) - 1"
      "fst (smbus_master_read_resp_loop m (retries - 1) c1 h1) = last (c1 # more)"
      "trace (snd (smbus_master_read_resp_loop m (retries - 1) c1 h1))
         = trace h1 @ concat (map (\<lambda>v. [Msleep 10, RegRead (m_cs m) v]) more)"
      by blast
    have pos: "0 < unat (retries - 1)" using True by (simp add: unat_gt_0)
    have unf: "smbus_master_read_resp_loop m retries cs h
                 = smbus_master_read_resp_loop m (retries - 1) c1 h1"
      using True rd by (subst smbus_master_read_resp_loop.simps) simp
    show ?thesis
      apply (rule exI [of _ "c1 # more"])
      using m True pos dec tr1 unfolding unf by auto
  qed
qed

text \<open>
  C8. Before the response register is read, \<^verbatim>\<open>smbus_master_read_resp\<close> reads the
  control/status register: at least once and at most 20 times, 10 ms apart, going on
  only while the fifo-size field is zero. If the field is still zero at the 20th read
  it logs an error. In either case the next and last access is the read of the response
  register, whose value is returned.
\<close>

theorem smbus_master_read_resp_fifo_check:
  "\<exists>css v. css \<noteq> [] \<and> length css \<le> 20
     \<and> (\<forall>c\<in>set (butlast css). cs_fs c = 0)
     \<and> (cs_fs (last css) = 0 \<longrightarrow> length css = 20)
     \<and> fst (smbus_master_read_resp m h) = v
     \<and> trace (snd (smbus_master_read_resp m h))
         = trace h @ cs_poll_events (m_cs m) css
           @ (if cs_fs (last css) = 0 then [Log ''fifo still empty after retries''] else [])
           @ [RegRead (m_resp m) v]"
proof -
  obtain c0 h0 where rd: "smbus_master_read_cs m h = (c0, h0)"
    by (cases "smbus_master_read_cs m h")
  have tr0: "trace h0 = trace h @ [RegRead (m_cs m) c0]"
    using rd trace_scd_read_register [of "m_cs m" h] by (simp add: smbus_master_read_cs_def)
  obtain c h1 where lp: "smbus_master_read_resp_loop m 20 c0 h0 = (c, h1)"
    by (cases "smbus_master_read_resp_loop m 20 c0 h0")
  from smbus_master_read_resp_loop_trace [of 20 c0 m h0] lp
  obtain more where m: "length more \<le> 19"
      "\<forall>c\<in>set (butlast (c0 # more)). cs_fs c = 0"
      "cs_fs (last (c0 # more)) = 0 \<longrightarrow> length more = 19"
      "c = last (c0 # more)"
      "trace h1 = trace h0 @ concat (map (\<lambda>v. [Msleep 10, RegRead (m_cs m) v]) more)"
    by auto
  define h2 where
    "h2 = (if cs_fs c = 0 then log_msg ''fifo still empty after retries'' h1 else h1)"
  have tr2: "trace h2
      = trace h1 @ (if cs_fs c = 0 then [Log ''fifo still empty after retries''] else [])"
    by (simp add: h2_def log_msg_def)
  have res: "smbus_master_read_resp m h = scd_read_register (m_resp m) h2"
    by (simp add: smbus_master_read_resp_def rd lp h2_def raw_smbus_master_read_resp_def)
  show ?thesis
    apply (rule exI [of _ "c0 # more"])
    apply (rule exI [of _ "fst (scd_read_register (m_resp m) h2)"])
    using m tr0 tr2 trace_scd_read_register [of "m_resp m" h2] unfolding res
    by (auto simp: cs_poll_events_def)
qed

theorem smbus_master_read_resp_fifo_check_witness:
  "(\<exists>css v. css \<noteq> [] \<and> length css \<le> 20
      \<and> (\<forall>c\<in>set (butlast css). cs_fs c = 0)
      \<and> (cs_fs (last css) = 0 \<longrightarrow> length css = 20)
      \<and> fst (smbus_master_read_resp ex_master ex_hw_silent) = v
      \<and> trace (snd (smbus_master_read_resp ex_master ex_hw_silent))
          = trace ex_hw_silent @ cs_poll_events (m_cs ex_master) css
            @ (if cs_fs (last css) = 0 then [Log ''fifo still empty after retries''] else [])
            @ [RegRead (m_resp ex_master) v])
   \<and> trace (snd (smbus_master_read_resp ex_master ex_hw_silent))
       = cs_poll_events 0x8020 (replicate 20 0)
         @ [Log ''fifo still empty after retries'', RegRead 0x8030 0]"
proof -
  have "trace (snd (smbus_master_read_resp ex_master ex_hw_silent))
       = cs_poll_events 0x8020 (replicate 20 0)
         @ [Log ''fifo still empty after retries'', RegRead 0x8030 0]"
    by code_simp
  with smbus_master_read_resp_fifo_check [of ex_master ex_hw_silent] show ?thesis
    by blast
qed

subsection \<open>Projections of traces, the codec, the reset\<close>

lemma reg_writes_append [simp]: "reg_writes off (xs @ ys) = reg_writes off xs @ reg_writes off ys"
  by (induction off xs rule: reg_writes.induct) auto

lemma reg_reads_append [simp]: "reg_reads off (xs @ ys) = reg_reads off xs @ reg_reads off ys"
  by (induction off xs rule: reg_reads.induct) auto

lemma stores_append [simp]: "stores (xs @ ys) = stores xs @ stores ys"
  by (induction xs rule: stores.induct) auto

lemma passive_reg_writes [simp]: "list_all is_passive evs \<Longrightarrow> reg_writes off evs = []"
  by (induction off evs rule: reg_writes.induct) auto

lemma passive_stores [simp]: "list_all is_passive evs \<Longrightarrow> stores evs = []"
  by (induction evs rule: stores.induct) auto

lemma reg_writes_map_other [simp]:
  "a \<noteq> off \<Longrightarrow> reg_writes off (map (\<lambda>r. RegWrite a (f r)) rs) = []"
  by (induction rs) auto

lemma reg_writes_map_same [simp]:
  "reg_writes off (map (\<lambda>r. RegWrite off (f r)) rs) = map f rs"
  by (induction rs) auto

lemma stores_map_write [simp]: "stores (map (\<lambda>r. RegWrite a (f r)) rs) = []"
  by (induction rs) auto

lemma bit_bit_at [simp]: "bit (bit_at n b) k \<longleftrightarrow> b \<and> k = n \<and> n < 32"
  by (auto simp: bit_at_def bit_simps)

lemma reg_req_req_reg [simp]: "reg_req (req_reg r) = r"
  apply (cases r)
  apply (simp add: reg_req_def req_reg_def)
  apply (intro conjI bit_word_eqI)
  apply (auto simp: bit_simps dest: bit_imp_le_length)
  done

lemma cs_set_reset_foe: "cs_set_foe True (cs_set_reset True v) = set_bit 31 (set_bit 13 v)"
  apply (simp add: cs_set_foe_def cs_set_reset_def)
  apply (rule bit_word_eqI)
  apply (auto simp: bit_simps)
  done

lemma cs_set_reset_foe_clear:
  "cs_set_reset False (set_bit 31 (set_bit 13 v)) = unset_bit 31 (set_bit 13 v)"
  apply (simp add: cs_set_reset_def)
  apply (rule bit_word_eqI)
  apply (auto simp: bit_simps)
  done

lemma feed_emit [simp]: "feed (emit e h) = feed h"
  and nreads_emit [simp]: "nreads (emit e h) = nreads h"
  by (simp_all add: emit_def)

lemma read_register_eq:
  "scd_read_register off h =
     (feed h off (nreads h off),
      h\<lparr>nreads := (nreads h)(off := Suc (nreads h off)),
        trace := trace h @ [RegRead off (feed h off (nreads h off))]\<rparr>)"
  by (simp add: scd_read_register_def Let_def emit_def)

lemma smbus_master_reset_trace:
  "trace (smbus_master_reset m h)
     = trace h @ spec_master_reset_events (m_cs m) (feed h (m_cs m) (nreads h (m_cs m)))"
  by (simp add: smbus_master_reset_def smbus_master_read_cs_def read_register_eq Let_def
      smbus_master_write_cs_def scd_write_register_def mdelay_def spec_master_reset_events_def
      cs_set_reset_foe cs_set_reset_foe_clear)

lemma smbus_master_reset_feed [simp]: "feed (smbus_master_reset m h) = feed h"
  by (simp add: smbus_master_reset_def smbus_master_read_cs_def read_register_eq Let_def
      smbus_master_write_cs_def scd_write_register_def mdelay_def)

subsection \<open>The request loop\<close>

lemma apply_stores_simps [simp]:
  "apply_stores [] d = d"
  "apply_stores ((k, v) # kvs) d = apply_stores kvs (d(k := v))"
  "apply_stores (xs @ ys) d = apply_stores ys (apply_stores xs d)"
  by (simp_all add: apply_stores_def)

subsection \<open>Reading a response: events and value\<close>

lemma smbus_master_read_cs_eq:
  "smbus_master_read_cs m h =
     (feed h (m_cs m) (nreads h (m_cs m)),
      h\<lparr>nreads := (nreads h)(m_cs m := Suc (nreads h (m_cs m))),
        trace := trace h @ [RegRead (m_cs m) (feed h (m_cs m) (nreads h (m_cs m)))]\<rparr>)"
  by (simp add: smbus_master_read_cs_def read_register_eq)

lemma smbus_master_read_resp_loop_inv:
  "\<exists>evs. list_all is_passive evs
     \<and> trace (snd (smbus_master_read_resp_loop m retries cs h)) = trace h @ evs
     \<and> reg_reads off evs = (if off = m_cs m then reg_reads off evs else [])
     \<and> feed (snd (smbus_master_read_resp_loop m retries cs h)) = feed h
     \<and> (off \<noteq> m_cs m \<longrightarrow>
          nreads (snd (smbus_master_read_resp_loop m retries cs h)) off = nreads h off)"
proof (induction m retries cs h rule: smbus_master_read_resp_loop.induct)
  case (1 m retries cs h)
  show ?case
  proof (cases "cs_fs cs = 0 \<and> retries - 1 \<noteq> 0")
    case False
    then show ?thesis
      by (subst (1 2 3) smbus_master_read_resp_loop.simps) auto
  next
    case True
    obtain c1 h1 where rd: "smbus_master_read_cs m (msleep 10 h) = (c1, h1)"
      by (cases "smbus_master_read_cs m (msleep 10 h)")
    have h1: "trace h1 = trace h @ [Msleep 10, RegRead (m_cs m) c1]" "feed h1 = feed h"
      "off \<noteq> m_cs m \<Longrightarrow> nreads h1 off = nreads h off"
      using rd by (auto simp: smbus_master_read_cs_eq msleep_def)
    have unf: "smbus_master_read_resp_loop m retries cs h
                 = smbus_master_read_resp_loop m (retries - 1) c1 h1"
      using True rd by (subst smbus_master_read_resp_loop.simps) simp
    from 1 [OF True rd [symmetric]] obtain evs where
      "list_all is_passive evs"
      "trace (snd (smbus_master_read_resp_loop m (retries - 1) c1 h1)) = trace h1 @ evs"
      "reg_reads off evs = (if off = m_cs m then reg_reads off evs else [])"
      "feed (snd (smbus_master_read_resp_loop m (retries - 1) c1 h1)) = feed h1"
      "off \<noteq> m_cs m \<longrightarrow>
         nreads (snd (smbus_master_read_resp_loop m (retries - 1) c1 h1)) off = nreads h1 off"
      by blast
    then show ?thesis
      unfolding unf using h1
      by (intro exI [of _ "[Msleep 10, RegRead (m_cs m) c1] @ evs"]) auto
  qed
qed

lemma smbus_master_read_resp_events:
  assumes "smbus_master_read_resp m h = (resp, h')"
  shows "\<exists>evs. list_all is_passive evs
     \<and> trace h' = trace h @ evs @ [RegRead (m_resp m) resp]
     \<and> (m_cs m \<noteq> m_resp m \<longrightarrow> reg_reads (m_resp m) evs = [])
     \<and> feed h' = feed h
     \<and> (m_cs m \<noteq> m_resp m \<longrightarrow>
          resp = feed h (m_resp m) (nreads h (m_resp m))
          \<and> nreads h' (m_resp m) = Suc (nreads h (m_resp m)))"
proof -
  obtain c0 h0 where rd: "smbus_master_read_cs m h = (c0, h0)"
    by (cases "smbus_master_read_cs m h")
  have h0: "trace h0 = trace h @ [RegRead (m_cs m) c0]" "feed h0 = feed h"
    "m_resp m \<noteq> m_cs m \<Longrightarrow> nreads h0 (m_resp m) = nreads h (m_resp m)"
    using rd by (auto simp: smbus_master_read_cs_eq)
  obtain c h1 where lp: "smbus_master_read_resp_loop m 20 c0 h0 = (c, h1)"
    by (cases "smbus_master_read_resp_loop m 20 c0 h0")
  from smbus_master_read_resp_loop_inv [of m 20 c0 h0 "m_resp m"] lp
  obtain evs where evs: "list_all is_passive evs" "trace h1 = trace h0 @ evs"
    "reg_reads (m_resp m) evs = (if m_resp m = m_cs m then reg_reads (m_resp m) evs else [])"
    "feed h1 = feed h0"
    "m_resp m \<noteq> m_cs m \<longrightarrow> nreads h1 (m_resp m) = nreads h0 (m_resp m)"
    by auto
  define h2 where
    "h2 = (if cs_fs c = 0 then log_msg ''fifo still empty after retries'' h1 else h1)"
  define lg where
    "lg = (if cs_fs c = 0 then [Log ''fifo still empty after retries''] else [])"
  have h2: "trace h2 = trace h1 @ lg" "feed h2 = feed h1" "nreads h2 = nreads h1"
    by (simp_all add: h2_def lg_def log_msg_def)
  have res: "smbus_master_read_resp m h = scd_read_register (m_resp m) h2"
    by (simp add: smbus_master_read_resp_def rd lp h2_def raw_smbus_master_read_resp_def)
  have lgp: "list_all is_passive lg" "reg_reads (m_resp m) lg = []"
    by (simp_all add: lg_def)
  show ?thesis
    apply (rule exI [of _ "[RegRead (m_cs m) c0] @ evs @ lg"])
    using assms evs h0 h2 lgp unfolding res read_register_eq
    by auto
qed

subsection \<open>The response loop\<close>

lemma scd_smbus_do_impl_poll_induct [case_names finished bad_resp too_short step]:
  assumes "\<And>i tid d h. \<not> i < ss \<Longrightarrow> P i tid d h (Inr (), d, fr, h)"
    and "\<And>i tid d h resp h1 err.
           i < ss \<Longrightarrow> smbus_master_read_resp m h = (resp, h1) \<Longrightarrow>
           smbus_resp_error resp (ucast tid) = Some err \<Longrightarrow>
           P i tid d h (Inl EIO, d, SET_FAIL_REASON (''bad response: '' @ err), h1)"
    and "\<And>i tid d h resp h1 reason.
           i < ss \<Longrightarrow> smbus_master_read_resp m h = (resp, h1) \<Longrightarrow>
           smbus_resp_error resp (ucast tid) = None \<Longrightarrow>
           scd_smbus_do_impl_store rw sz ds ss i resp (d, h1) = Inl reason \<Longrightarrow>
           P i tid d h (Inl EINVAL, d, SET_FAIL_REASON reason, h1)"
    and "\<And>i tid d h resp h1 d2 h2.
           i < ss \<Longrightarrow> smbus_master_read_resp m h = (resp, h1) \<Longrightarrow>
           smbus_resp_error resp (ucast tid) = None \<Longrightarrow>
           scd_smbus_do_impl_store rw sz ds ss i resp (d, h1) = Inr (d2, h2) \<Longrightarrow>
           P (i + 1) (tid + 1) d2 h2
             (scd_smbus_do_impl_poll m rw sz ds ss (i + 1) (tid + 1) d2 fr h2) \<Longrightarrow>
           P i tid d h (scd_smbus_do_impl_poll m rw sz ds ss (i + 1) (tid + 1) d2 fr h2)"
  shows "P i tid d h (scd_smbus_do_impl_poll m rw sz ds ss i tid d fr h)"
proof (induction "ss - i" arbitrary: i tid d h)
  case 0
  then have "\<not> i < ss" by simp
  then show ?case
    using assms(1) [of i tid d h] by (subst scd_smbus_do_impl_poll.simps) simp
next
  case (Suc n)
  then have lt: "i < ss" by simp
  obtain resp h1 where rd: "smbus_master_read_resp m h = (resp, h1)"
    by (cases "smbus_master_read_resp m h")
  show ?case
  proof (cases "smbus_resp_error resp (ucast tid)")
    case (Some err)
    then show ?thesis
      using assms(2) [OF lt rd Some] lt rd
      by (subst scd_smbus_do_impl_poll.simps) (simp add: smbus_check_resp_def)
  next
    case None
    then have chk: "smbus_check_resp resp (ucast tid) (Some fr) = (Inr (), Some fr)"
      by (simp add: smbus_check_resp_def)
    show ?thesis
    proof (cases "scd_smbus_do_impl_store rw sz ds ss i resp (d, h1)")
      case (Inl reason)
      then show ?thesis
        using assms(3) [OF lt rd None Inl] lt rd chk
        by (subst scd_smbus_do_impl_poll.simps) simp
    next
      case (Inr dh)
      obtain d2 h2 where dh: "dh = (d2, h2)" by (cases dh)
      have "n = ss - (i + 1)" using Suc(2) by simp
      from Suc(1) [OF this]
      have ih: "P (i + 1) (tid + 1) d2 h2
           (scd_smbus_do_impl_poll m rw sz ds ss (i + 1) (tid + 1) d2 fr h2)" .
      show ?thesis
        using assms(4) [OF lt rd None Inr [unfolded dh] ih] lt rd chk Inr dh
        by (subst scd_smbus_do_impl_poll.simps) simp
    qed
  qed
qed

lemma store_block_eq:
  "store_block k v (d, h) = (d(k := v), h\<lparr>trace := trace h @ [Store k v]\<rparr>)"
  by (simp add: store_block_def emit_def)

lemma scd_smbus_do_impl_store_Inr:
  assumes "scd_smbus_do_impl_store rw sz ds ss i resp (d, h1) = Inr (d2, h2)"
  shows "\<exists>sevs. trace h2 = trace h1 @ sevs \<and> (\<forall>off. reg_writes off sevs = [])
     \<and> (\<forall>off. reg_reads off sevs = []) \<and> feed h2 = feed h1 \<and> nreads h2 = nreads h1
     \<and> d2 = apply_stores (stores sevs) d
     \<and> (is_block_size sz \<longrightarrow> (\<forall>kv\<in>set (stores sevs). int (fst kv) < ds))"
proof -
  have "trace h2 = trace h1 @ drop (length (trace h1)) (trace h2)
     \<and> (\<forall>off. reg_writes off (drop (length (trace h1)) (trace h2)) = [])
     \<and> (\<forall>off. reg_reads off (drop (length (trace h1)) (trace h2)) = [])
     \<and> feed h2 = feed h1 \<and> nreads h2 = nreads h1
     \<and> d2 = apply_stores (stores (drop (length (trace h1)) (trace h2))) d
     \<and> (is_block_size sz \<longrightarrow>
          (\<forall>kv\<in>set (stores (drop (length (trace h1)) (trace h2))). int (fst kv) < ds))"
    using assms
    by (auto simp: scd_smbus_do_impl_store_def store_byte_def store_word_def store_block_eq
        is_block_size_def split: if_splits)
  then show ?thesis by blast
qed

lemma scd_smbus_do_impl_store_Inl:
  "scd_smbus_do_impl_store rw sz ds ss i resp dh = Inl reason \<Longrightarrow>
     reason = ''buffer too short'' \<and> rw = I2C_SMBUS_READ \<and> is_block_size sz \<and> 3 \<le> i
     \<and> ds \<le> int i - (if sz = I2C_SMBUS_I2C_BLOCK_DATA then 2 else 3)"
  by (auto simp: scd_smbus_do_impl_store_def is_block_size_def split: if_splits)

lemma scd_smbus_do_impl_poll_inv:
  "poll_inv m rw sz ds ss fr i tid d h (scd_smbus_do_impl_poll m rw sz ds ss i tid d fr h)"
proof (rule scd_smbus_do_impl_poll_induct [where P = "poll_inv m rw sz ds ss fr"], goal_cases)
  case (1 i tid d h)
  then show ?case
    by (simp add: poll_inv_def)
next
  case (2 i tid d h resp h1 err)
  from smbus_master_read_resp_events [OF 2(2)] obtain evs where
    "list_all is_passive evs" "trace h1 = trace h @ evs @ [RegRead (m_resp m) resp]"
    "feed h1 = feed h"
    by blast
  with 2(3) show ?case
    unfolding poll_inv_def
    by (auto intro!: exI [of _ "evs @ [RegRead (m_resp m) resp]"])
next
  case (3 i tid d h resp h1 reason)
  from smbus_master_read_resp_events [OF 3(2)] obtain evs where
    "list_all is_passive evs" "trace h1 = trace h @ evs @ [RegRead (m_resp m) resp]"
    "feed h1 = feed h"
    by blast
  with scd_smbus_do_impl_store_Inl [OF 3(4)] show ?case
    unfolding poll_inv_def
    by (auto intro!: exI [of _ "evs @ [RegRead (m_resp m) resp]"]
        simp: SET_FAIL_REASON_def FAIL_REASON_MAX_SZ_def)
next
  case (4 i tid d h resp h1 d2 h2)
  obtain st d' fr' h' where res:
    "scd_smbus_do_impl_poll m rw sz ds ss (i + 1) (tid + 1) d2 fr h2 = (st, d', fr', h')"
    by (cases "scd_smbus_do_impl_poll m rw sz ds ss (i + 1) (tid + 1) d2 fr h2")
  from smbus_master_read_resp_events [OF 4(2)] obtain evs where evs:
    "list_all is_passive evs" "trace h1 = trace h @ evs @ [RegRead (m_resp m) resp]"
    "m_cs m \<noteq> m_resp m \<longrightarrow> reg_reads (m_resp m) evs = []"
    "feed h1 = feed h"
    by blast
  from scd_smbus_do_impl_store_Inr [OF 4(4)] obtain sevs where sevs:
    "trace h2 = trace h1 @ sevs" "\<forall>off. reg_writes off sevs = []"
    "\<forall>off. reg_reads off sevs = []" "feed h2 = feed h1"
    "d2 = apply_stores (stores sevs) d"
    "is_block_size sz \<longrightarrow> (\<forall>kv\<in>set (stores sevs). int (fst kv) < ds)"
    by blast
  from 4(5) [unfolded poll_inv_def res] obtain evs2 where evs2:
    "trace h' = trace h2 @ evs2" "\<forall>off. reg_writes off evs2 = []" "feed h' = feed h2"
    "d' = apply_stores (stores evs2) d2"
    "is_block_size sz \<longrightarrow> (\<forall>kv\<in>set (stores evs2). int (fst kv) < ds)"
    "\<forall>e. st = Inl e \<longrightarrow>
        (\<exists>pre r. evs2 = pre @ [RegRead (m_resp m) r]
           \<and> ((e = EIO \<and> (\<exists>t. smbus_resp_error r t \<noteq> None))
              \<or> (e = EINVAL \<and> is_block_size sz \<and> rw = I2C_SMBUS_READ
                  \<and> fr' = ''buffer too short'')))"
    "st = Inr () \<longrightarrow> fr' = fr
        \<and> (m_cs m \<noteq> m_resp m \<longrightarrow>
             length (reg_reads (m_resp m) evs2) = ss - (i + 1)
             \<and> (\<forall>k < ss - (i + 1). smbus_resp_error (reg_reads (m_resp m) evs2 ! k)
                               (ucast (tid + 1 + of_nat k)) = None))"
    by auto
  define all where "all = evs @ [RegRead (m_resp m) resp] @ sevs @ evs2"
  have tr: "trace h' = trace h @ all"
    by (simp add: all_def evs2 sevs evs)
  have wr: "\<forall>off. reg_writes off all = []"
    using evs(1) sevs(2) evs2(2) by (simp add: all_def)
  have st: "stores all = stores sevs @ stores evs2"
    using evs(1) by (simp add: all_def)
  have fail: "\<exists>pre r. all = pre @ [RegRead (m_resp m) r]
           \<and> ((e = EIO \<and> (\<exists>t. smbus_resp_error r t \<noteq> None))
              \<or> (e = EINVAL \<and> is_block_size sz \<and> rw = I2C_SMBUS_READ
                  \<and> fr' = ''buffer too short''))" if "st = Inl e" for e
  proof -
    from evs2(6) that obtain pre r where
      "evs2 = pre @ [RegRead (m_resp m) r]"
      "(e = EIO \<and> (\<exists>t. smbus_resp_error r t \<noteq> None))
        \<or> (e = EINVAL \<and> is_block_size sz \<and> rw = I2C_SMBUS_READ \<and> fr' = ''buffer too short'')"
      by blast
    then show ?thesis
      by (intro exI [of _ "evs @ [RegRead (m_resp m) resp] @ sevs @ pre"] exI [of _ r])
         (simp add: all_def)
  qed
  have ok: "length (reg_reads (m_resp m) all) = ss - i
       \<and> (\<forall>k < ss - i. smbus_resp_error (reg_reads (m_resp m) all ! k)
                         (ucast (tid + of_nat k)) = None)"
    if "st = Inr ()" "m_cs m \<noteq> m_resp m"
  proof -
    have rr: "reg_reads (m_resp m) all = resp # reg_reads (m_resp m) evs2"
      using evs(3) sevs(3) that by (simp add: all_def)
    from evs2(7) that have l: "length (reg_reads (m_resp m) evs2) = ss - (i + 1)"
      and v: "\<forall>k < ss - (i + 1). smbus_resp_error (reg_reads (m_resp m) evs2 ! k)
                               (ucast (tid + 1 + of_nat k)) = None"
      by auto
    have "smbus_resp_error ((resp # reg_reads (m_resp m) evs2) ! k)
             (ucast (tid + of_nat k)) = None" if k: "k < ss - i" for k
    proof (cases k)
      case 0
      then show ?thesis using 4(3) by simp
    next
      case (Suc j)
      with k have "j < ss - (i + 1)" by simp
      with v Suc show ?thesis by (simp add: add.assoc)
    qed
    with l 4(1) show ?thesis unfolding rr by simp
  qed
  show ?case
    unfolding res poll_inv_def prod.case
    apply (rule exI [of _ all])
    using tr wr st evs2(3,4,5,7) sevs(4,5,6) evs(4) fail ok
    by auto
qed

lemma scd_smbus_do_impl_phase_fields:
  "req_ti (scd_smbus_do_impl_phase ps rw cmd addr doff d ss i req) = req_ti req"
  "req_t (scd_smbus_do_impl_phase ps rw cmd addr doff d ss i req) = req_t req"
  "req_bs (scd_smbus_do_impl_phase ps rw cmd addr doff d ss i req) = req_bs req"
  "i + 1 = ss \<Longrightarrow> req_sp (scd_smbus_do_impl_phase ps rw cmd addr doff d ss i req)"
  "i + 1 = ss \<Longrightarrow>
     req_ed (scd_smbus_do_impl_phase ps rw cmd addr doff d ss i req) = bit (p_ed ps) 0"
  "i + 1 = ss \<Longrightarrow>
     req_dat (scd_smbus_do_impl_phase ps rw cmd addr doff d ss i req)
       = ucast (if rw = I2C_SMBUS_WRITE then p_datw ps else p_datr ps)"
  "i + 1 \<noteq> ss \<Longrightarrow>
     req_ed (scd_smbus_do_impl_phase ps rw cmd addr doff d ss i req) = req_ed req"
  "i + 1 \<noteq> ss \<Longrightarrow>
     req_dat (scd_smbus_do_impl_phase ps rw cmd addr doff d ss i req) = req_dat req"
  by (simp_all add: scd_smbus_do_impl_phase_def Let_def)

lemma scd_smbus_do_impl_issue_events:
  "\<exists>rs. phases_ok ps rw ss i req rs
     \<and> trace (snd (scd_smbus_do_impl_issue m ps rw cmd addr doff d ss i req h))
         = trace h @ map (\<lambda>r. RegWrite (m_req m) (req_reg r)) rs
     \<and> feed (snd (scd_smbus_do_impl_issue m ps rw cmd addr doff d ss i req h)) = feed h
     \<and> nreads (snd (scd_smbus_do_impl_issue m ps rw cmd addr doff d ss i req h)) = nreads h"
proof (induction "ss - i" arbitrary: i req h)
  case 0
  then show ?case
    by (subst (1 2 3) scd_smbus_do_impl_issue.simps) (simp add: phases_ok_def)
next
  case (Suc n)
  then have lt: "i < ss" by simp
  define r where "r = scd_smbus_do_impl_phase ps rw cmd addr doff d ss i req"
  define h1 where "h1 = smbus_master_write_req m r h"
  define r' where "r' = r\<lparr>req_ti := req_ti r + 1, req_st := False\<rparr>"
  have unf: "scd_smbus_do_impl_issue m ps rw cmd addr doff d ss i req h
      = scd_smbus_do_impl_issue m ps rw cmd addr doff d ss (i + 1) r' h1"
    using lt by (subst scd_smbus_do_impl_issue.simps) (simp add: r_def h1_def r'_def Let_def)
  have "n = ss - (i + 1)" using Suc(2) by simp
  from Suc(1) [OF this, of r' h1]
  obtain rs where rs: "phases_ok ps rw ss (i + 1) r' rs"
    "trace (snd (scd_smbus_do_impl_issue m ps rw cmd addr doff d ss (i + 1) r' h1))
       = trace h1 @ map (\<lambda>r. RegWrite (m_req m) (req_reg r)) rs"
    "feed (snd (scd_smbus_do_impl_issue m ps rw cmd addr doff d ss (i + 1) r' h1)) = feed h1"
    "nreads (snd (scd_smbus_do_impl_issue m ps rw cmd addr doff d ss (i + 1) r' h1)) = nreads h1"
    by blast
  have h1: "trace h1 = trace h @ [RegWrite (m_req m) (req_reg r)]" "feed h1 = feed h"
    "nreads h1 = nreads h"
    by (simp_all add: h1_def smbus_master_write_req_def scd_write_register_def)
  have ok: "phases_ok ps rw ss i req (r # rs)"
    unfolding phases_ok_def
  proof (intro conjI allI impI)
    show "length (r # rs) = ss - i" using rs(1) lt by (simp add: phases_ok_def)
  next
    fix k assume k: "k < ss - i"
    note pf = scd_smbus_do_impl_phase_fields [where ps = ps and rw = rw and cmd = cmd
        and addr = addr and doff = doff and d = d and ss = ss and i = i and req = req,
        folded r_def]
    {
      assume "k = 0"
      then have "req_ti ((r # rs) ! k) = req_ti req + of_nat k"
        "req_t ((r # rs) ! k) = req_t req" "req_bs ((r # rs) ! k) = req_bs req"
        "i + k + 1 = ss \<longrightarrow> req_sp ((r # rs) ! k) \<and> req_ed ((r # rs) ! k) = bit (p_ed ps) 0
              \<and> req_dat ((r # rs) ! k)
                  = ucast (if rw = I2C_SMBUS_WRITE then p_datw ps else p_datr ps)"
        "i + k + 1 < ss \<longrightarrow>
                req_dat ((r # rs) ! k) = req_dat req \<and> req_ed ((r # rs) ! k) = req_ed req"
        using pf by auto
    }
    moreover
    {
      fix j assume j: "k = Suc j"
      with k have jl: "j < ss - (i + 1)" by simp
      have ne: "i + 1 \<noteq> ss" using jl by simp
      from rs(1) jl have
        "req_ti (rs ! j) = req_ti r' + of_nat j" "req_t (rs ! j) = req_t r'"
        "req_bs (rs ! j) = req_bs r'"
        "i + 1 + j + 1 = ss \<longrightarrow> req_sp (rs ! j) \<and> req_ed (rs ! j) = bit (p_ed ps) 0
              \<and> req_dat (rs ! j)
                  = ucast (if rw = I2C_SMBUS_WRITE then p_datw ps else p_datr ps)"
        "i + 1 + j + 1 < ss \<longrightarrow> req_dat (rs ! j) = req_dat r' \<and> req_ed (rs ! j) = req_ed r'"
        by (simp_all add: phases_ok_def)
      then have "req_ti ((r # rs) ! k) = req_ti req + of_nat k"
        "req_t ((r # rs) ! k) = req_t req" "req_bs ((r # rs) ! k) = req_bs req"
        "i + k + 1 = ss \<longrightarrow> req_sp ((r # rs) ! k) \<and> req_ed ((r # rs) ! k) = bit (p_ed ps) 0
              \<and> req_dat ((r # rs) ! k)
                  = ucast (if rw = I2C_SMBUS_WRITE then p_datw ps else p_datr ps)"
        "i + k + 1 < ss \<longrightarrow>
                req_dat ((r # rs) ! k) = req_dat req \<and> req_ed ((r # rs) ! k) = req_ed req"
        using j pf(1,2,3) pf(7,8) [OF ne] by (simp_all add: r'_def)
    }
    ultimately have all:
        "req_ti ((r # rs) ! k) = req_ti req + of_nat k"
        "req_t ((r # rs) ! k) = req_t req" "req_bs ((r # rs) ! k) = req_bs req"
        "i + k + 1 = ss \<longrightarrow> req_sp ((r # rs) ! k) \<and> req_ed ((r # rs) ! k) = bit (p_ed ps) 0
              \<and> req_dat ((r # rs) ! k)
                  = ucast (if rw = I2C_SMBUS_WRITE then p_datw ps else p_datr ps)"
        "i + k + 1 < ss \<longrightarrow>
                req_dat ((r # rs) ! k) = req_dat req \<and> req_ed ((r # rs) ! k) = req_ed req"
      by (cases k; blast)+
    show "req_ti ((r # rs) ! k) = req_ti req + of_nat k" by (rule all)
    show "req_t ((r # rs) ! k) = req_t req" by (rule all)
    show "req_bs ((r # rs) ! k) = req_bs req" by (rule all)
    show "req_sp ((r # rs) ! k)" if "i + k + 1 = ss" using all(4) that by blast
    show "req_ed ((r # rs) ! k) = bit (p_ed ps) 0" if "i + k + 1 = ss"
      using all(4) that by blast
    show "req_dat ((r # rs) ! k)
            = ucast (if rw = I2C_SMBUS_WRITE then p_datw ps else p_datr ps)"
      if "i + k + 1 = ss" using all(4) that by blast
    show "req_dat ((r # rs) ! k) = req_dat req" if "i + k + 1 < ss" using all(5) that by blast
    show "req_ed ((r # rs) ! k) = req_ed req" if "i + k + 1 < ss" using all(5) that by blast
  qed
  show ?case
    apply (rule exI [of _ "r # rs"])
    using rs(2-) h1 ok unfolding unf by simp
qed

subsection \<open>One exchange\<close>

lemma phases_ok_cong_req:
  "req_ti r = req_ti r' \<Longrightarrow> req_t r = req_t r' \<Longrightarrow> req_bs r = req_bs r' \<Longrightarrow>
   req_dat r = req_dat r' \<Longrightarrow> req_ed r = req_ed r' \<Longrightarrow>
   phases_ok ps rw ss i r rs = phases_ok ps rw ss i r' rs"
  by (simp add: phases_ok_def)

lemma scd_smbus_do_impl_xfer_ok:
  assumes "scd_smbus_do_impl_xfer bus addr rw cmd sz d ds fr doff ss h = (st, d', fr', h')"
  shows "\<exists>evs. trace h' = trace h @ evs \<and> feed h' = feed h
           \<and> xfer_ok bus addr rw sz ds ss fr d evs (st, d', fr')"
proof -
  define m where "m = master bus"
  define ps where "ps = get_smbus_params bus addr"
  define req where "req = req_zero\<lparr>req_bs := ucast (bus_id bus), req_t := ucast (p_t ps),
                  req_st := True, req_ss := of_nat ss,
                  req_d := push_bit 1 (ucast addr)
                           OR (if ss \<le> 2 then word_of_int rw else 0),
                  req_dod := True\<rparr>"
  obtain req1 h1 where iss:
    "scd_smbus_do_impl_issue m ps rw cmd addr doff d ss 0 req h = (req1, h1)"
    by (cases "scd_smbus_do_impl_issue m ps rw cmd addr doff d ss 0 req h")
  from scd_smbus_do_impl_issue_events [of ps rw ss 0 req m cmd addr doff d h] iss
  obtain rs where rs: "phases_ok ps rw ss 0 req rs"
    "trace h1 = trace h @ map (\<lambda>r. RegWrite (m_req m) (req_reg r)) rs"
    "feed h1 = feed h"
    by auto
  have rs': "phases_ok ps rw ss 0
                (req_zero\<lparr>req_bs := ucast (bus_id bus), req_t := ucast (p_t ps)\<rparr>) rs"
    using rs(1) by (subst phases_ok_cong_req [where r' = req]) (simp_all add: req_def)
  obtain st2 d2 fr2 h2 where pl:
    "scd_smbus_do_impl_poll m rw sz ds ss 0 0 d fr h1 = (st2, d2, fr2, h2)"
    by (cases "scd_smbus_do_impl_poll m rw sz ds ss 0 0 d fr h1")
  from scd_smbus_do_impl_poll_inv [of m rw sz ds ss fr 0 0 d h1, unfolded pl poll_inv_def]
  obtain pevs where pevs:
    "trace h2 = trace h1 @ pevs" "\<forall>off. reg_writes off pevs = []" "feed h2 = feed h1"
    "d2 = apply_stores (stores pevs) d"
    "is_block_size sz \<longrightarrow> (\<forall>kv\<in>set (stores pevs). int (fst kv) < ds)"
    "\<forall>e. st2 = Inl e \<longrightarrow>
        (\<exists>pre r. pevs = pre @ [RegRead (m_resp m) r]
           \<and> ((e = EIO \<and> (\<exists>t. smbus_resp_error r t \<noteq> None))
              \<or> (e = EINVAL \<and> is_block_size sz \<and> rw = I2C_SMBUS_READ
                  \<and> fr2 = ''buffer too short'')))"
    "st2 = Inr () \<longrightarrow> fr2 = fr
        \<and> (m_cs m \<noteq> m_resp m \<longrightarrow>
             length (reg_reads (m_resp m) pevs) = ss - 0
             \<and> (\<forall>k < ss - 0. smbus_resp_error (reg_reads (m_resp m) pevs ! k)
                               (ucast (0 + of_nat k :: 4 word)) = None))"
    by auto
  have xf: "scd_smbus_do_impl_xfer bus addr rw cmd sz d ds fr doff ss h
      = (case st2 of Inl e \<Rightarrow> scd_smbus_do_impl_fail m e d2 fr2 h2
         | Inr _ \<Rightarrow> (Inr (), d2, fr2, h2))"
    unfolding scd_smbus_do_impl_xfer_def Let_def
    unfolding m_def [symmetric] ps_def [symmetric]
    unfolding req_def [symmetric] iss prod.case pl
    by (simp split: sum.splits)
  show ?thesis
  proof (cases st2)
    case (Inr u)
    with xf assms have eq: "st = Inr ()" "d' = d2" "fr' = fr2" "h' = h2" by simp_all
    show ?thesis
      apply (rule exI [of _ "map (\<lambda>r. RegWrite (m_req m) (req_reg r)) rs @ pevs @ []"])
      unfolding xfer_ok_def prod.case eq
      using rs(2,3) rs' pevs Inr
      by (auto simp: m_def ps_def)
  next
    case (Inl e)
    with xf assms have eq: "st = Inl e" "d' = d2" "fr' = fr2" "h' = smbus_master_reset m h2"
      by (simp_all add: scd_smbus_do_impl_fail_def)
    define v where "v = feed h2 (m_cs m) (nreads h2 (m_cs m))"
    have tr: "trace h' = trace h2 @ spec_master_reset_events (m_cs m) v"
      by (simp add: eq smbus_master_reset_trace v_def)
    show ?thesis
      apply (rule exI [of _ "map (\<lambda>r. RegWrite (m_req m) (req_reg r)) rs @ pevs
                               @ spec_master_reset_events (m_cs m) v"])
      unfolding xfer_ok_def prod.case
      apply (intro conjI)
        apply (simp add: tr pevs rs)
       apply (simp add: eq pevs rs)
      apply (rule exI [of _ rs], rule exI [of _ pevs],
          rule exI [of _ "spec_master_reset_events (m_cs m) v"])
      using rs' pevs Inl eq(1,2,3)
      by (auto simp: m_def ps_def)
  qed
qed

subsection \<open>The hardware-assisted block read\<close>

lemma scd_smbus_block_read_poll_inv:
  "block_read_poll_inv m ds tid d h (scd_smbus_block_read_poll m ds ss i tid d h)"
proof (induction "(if i \<le> 3 then 300 else 0) + (ss - i)" arbitrary: ss i tid d h
    rule: less_induct)
  case less
  show ?case
  proof (cases "i < ss")
    case False
    then show ?thesis
      by (subst scd_smbus_block_read_poll.simps) (simp add: block_read_poll_inv_def)
  next
    case lt: True
    obtain resp h1 where rd: "smbus_master_read_resp m h = (resp, h1)"
      by (cases "smbus_master_read_resp m h")
    from smbus_master_read_resp_events [OF rd] obtain evs where evs:
      "list_all is_passive evs" "trace h1 = trace h @ evs @ [RegRead (m_resp m) resp]"
      "feed h1 = feed h"
      and evr: "m_cs m \<noteq> m_resp m \<longrightarrow> reg_reads (m_resp m) evs = []"
      by blast
    show ?thesis
    proof (cases "smbus_resp_error resp (ucast tid)")
      case (Some err)
      then have "scd_smbus_block_read_poll m ds ss i tid d h = (Inl EIO, d, h1)"
        using lt rd by (subst scd_smbus_block_read_poll.simps) (simp add: smbus_check_resp_def)
      then show ?thesis
        unfolding block_read_poll_inv_def using evs Some
        by (auto intro!: exI [of _ "evs @ [RegRead (m_resp m) resp]"])
    next
      case None
      then have chk: "smbus_check_resp resp (ucast tid) None = (Inr (), None)"
        by (simp add: smbus_check_resp_def)
      define ss1 where "ss1 = (if i = 3 then ss + unat (resp_d resp) else ss)"
      have bound: "unat (resp_d resp) < 256"
        using unsigned_less [of "resp_d resp", where ?'a = nat] by simp
      have dec: "(if i + 1 \<le> 3 then 300 else 0) + (ss1 - (i + 1))
                   < (if i \<le> 3 then 300 else 0) + (ss - i)"
        using lt bound by (auto simp: ss1_def)
      have step: "block_read_poll_inv m ds tid d h
                    (scd_smbus_block_read_poll m ds ss1 (i + 1) (tid + 1) dx hx)"
        if hx: "trace hx = trace h1 @ sevs" "feed hx = feed h1"
          and sv: "\<forall>off. reg_writes off sevs = []" "dx = apply_stores (stores sevs) d"
            "\<forall>kv\<in>set (stores sevs). int (fst kv) < ds"
            "\<forall>off. reg_reads off sevs = []"
        for dx hx sevs
      proof -
        obtain st d' h' where res:
          "scd_smbus_block_read_poll m ds ss1 (i + 1) (tid + 1) dx hx = (st, d', h')"
          by (cases "scd_smbus_block_read_poll m ds ss1 (i + 1) (tid + 1) dx hx")
        from less [OF dec]
        have "block_read_poll_inv m ds (tid + 1) dx hx
                (scd_smbus_block_read_poll m ds ss1 (i + 1) (tid + 1) dx hx)" .
        from this [unfolded res block_read_poll_inv_def prod.case]
        obtain evs2 where e2: "trace h' = trace hx @ evs2" "\<forall>off. reg_writes off evs2 = []"
          "feed h' = feed hx" "d' = apply_stores (stores evs2) dx"
          "\<forall>kv\<in>set (stores evs2). int (fst kv) < ds"
          "\<forall>e. st = Inl e \<longrightarrow>
              (\<exists>pre r. (e = EIO \<and> evs2 = pre @ [RegRead (m_resp m) r]
                              \<and> (\<exists>t. smbus_resp_error r t \<noteq> None))
                        \<or> (e = EINVAL
                            \<and> evs2 = pre @ [RegRead (m_resp m) r,
                                            Log ''smbus read failed (output too big)'']))"
          "st = Inr () \<longrightarrow> m_cs m \<noteq> m_resp m \<longrightarrow>
              (\<forall>k < length (reg_reads (m_resp m) evs2).
                  smbus_resp_error (reg_reads (m_resp m) evs2 ! k)
                    (ucast (tid + 1 + of_nat k)) = None)"
          by blast
        define all where "all = evs @ [RegRead (m_resp m) resp] @ sevs @ evs2"
        have ok: "\<forall>k < length (reg_reads (m_resp m) all).
                  smbus_resp_error (reg_reads (m_resp m) all ! k) (ucast (tid + of_nat k)) = None"
          if "st = Inr ()" "m_cs m \<noteq> m_resp m"
        proof -
          have rr: "reg_reads (m_resp m) all = resp # reg_reads (m_resp m) evs2"
            using evr sv(4) that by (simp add: all_def)
          from e2(7) that have v: "\<forall>k < length (reg_reads (m_resp m) evs2).
                  smbus_resp_error (reg_reads (m_resp m) evs2 ! k)
                    (ucast (tid + 1 + of_nat k)) = None"
            by blast
          have "smbus_resp_error ((resp # reg_reads (m_resp m) evs2) ! k)
                  (ucast (tid + of_nat k)) = None"
            if k: "k < Suc (length (reg_reads (m_resp m) evs2))" for k
          proof (cases k)
            case 0
            then show ?thesis using None by simp
          next
            case (Suc j)
            with k have "j < length (reg_reads (m_resp m) evs2)" by simp
            with v Suc show ?thesis by (simp add: add.assoc)
          qed
          then show ?thesis unfolding rr by simp
        qed
        have fail: "\<exists>pre r. (e = EIO \<and> all = pre @ [RegRead (m_resp m) r]
                              \<and> (\<exists>t. smbus_resp_error r t \<noteq> None))
                        \<or> (e = EINVAL
                            \<and> all = pre @ [RegRead (m_resp m) r,
                                            Log ''smbus read failed (output too big)''])"
          if "st = Inl e" for e
        proof -
          from e2(6) that obtain pre r where
            "(e = EIO \<and> evs2 = pre @ [RegRead (m_resp m) r]
                              \<and> (\<exists>t. smbus_resp_error r t \<noteq> None))
                        \<or> (e = EINVAL
                            \<and> evs2 = pre @ [RegRead (m_resp m) r,
                                            Log ''smbus read failed (output too big)''])"
            by blast
          then show ?thesis
            by (intro exI [of _ "evs @ [RegRead (m_resp m) resp] @ sevs @ pre"] exI [of _ r])
               (auto simp: all_def)
        qed
        show ?thesis
          unfolding res block_read_poll_inv_def prod.case
          apply (rule exI [of _ all])
          using e2(1-5) hx sv(1-3) evs fail ok by (auto simp: all_def)
      qed
      show ?thesis
      proof (cases "3 \<le> i")
        case False
        then have unf: "scd_smbus_block_read_poll m ds ss i tid d h
            = scd_smbus_block_read_poll m ds ss1 (i + 1) (tid + 1) d h1"
          using lt rd chk
          by (subst scd_smbus_block_read_poll.simps) (simp add: ss1_def Let_def)
        show ?thesis
          unfolding unf by (rule step [of h1 "[]"]) simp_all
      next
        case ge: True
        show ?thesis
        proof (cases "ds \<le> int i - 3")
          case True
          then have "scd_smbus_block_read_poll m ds ss i tid d h
              = (Inl EINVAL, d, log_msg ''smbus read failed (output too big)'' h1)"
            using lt rd chk ge
            by (subst scd_smbus_block_read_poll.simps) (simp add: Let_def)
          then show ?thesis
            unfolding block_read_poll_inv_def using evs
            by (auto intro!: exI [of _ "evs @ [RegRead (m_resp m) resp,
                   Log ''smbus read failed (output too big)'']"] simp: log_msg_def)
        next
          case False
          define h2 where "h2 = h1\<lparr>trace := trace h1 @ [Store (i - 3) (resp_d resp)]\<rparr>"
          have unf: "scd_smbus_block_read_poll m ds ss i tid d h
              = scd_smbus_block_read_poll m ds ss1 (i + 1) (tid + 1)
                  (d(i - 3 := resp_d resp)) h2"
            using lt rd chk ge False
            by (subst scd_smbus_block_read_poll.simps)
               (simp add: ss1_def Let_def store_block_eq h2_def)
          have idx: "int (i - 3) < ds" using False ge by simp
          show ?thesis
            unfolding unf
            by (rule step [of h2 "[Store (i - 3) (resp_d resp)]"])
               (simp_all add: h2_def idx)
        qed
      qed
    qed
  qed
qed

lemma scd_smbus_block_read_issue_events:
  "\<exists>rs. length rs = ss - i
     \<and> trace (snd (scd_smbus_block_read_issue m addr cmd ss i req h))
         = trace h @ map (\<lambda>r. RegWrite (m_req m) (req_reg r)) rs
     \<and> (\<forall>k < ss - i. req_ti (rs ! k) = req_ti req + of_nat k \<and> req_t (rs ! k) = req_t req
           \<and> req_dat (rs ! k) = req_dat req \<and> req_ed (rs ! k) = req_ed req)
     \<and> feed (snd (scd_smbus_block_read_issue m addr cmd ss i req h)) = feed h"
proof (induction "ss - i" arbitrary: i req h)
  case 0
  then show ?case
    by (subst (1 2) scd_smbus_block_read_issue.simps) simp
next
  case (Suc n)
  then have lt: "i < ss" by simp
  define r1 where "r1 = (if i = 1 then req\<lparr>req_st := False, req_ss := 0, req_d := cmd\<rparr>
                      else req)"
  define r2 where "r2 = (if i = 2
                      then r1\<lparr>req_br := True, req_st := True,
                              req_d := push_bit 1 (ucast addr) OR 1\<rparr>
                      else r1)"
  define r where "r = r2\<lparr>req_da := \<not> (req_dod r2 \<or> req_sp r2)\<rparr>"
  define h1 where "h1 = smbus_master_write_req m r h"
  define r' where "r' = r\<lparr>req_ti := req_ti r + 1\<rparr>"
  have unf: "scd_smbus_block_read_issue m addr cmd ss i req h
      = scd_smbus_block_read_issue m addr cmd ss (i + 1) r' h1"
    using lt
    by (subst scd_smbus_block_read_issue.simps)
       (simp only: r1_def r2_def r_def h1_def r'_def Let_def if_True)
  have rf: "req_ti r = req_ti req" "req_t r = req_t req" "req_dat r = req_dat req"
    "req_ed r = req_ed req"
    by (simp_all add: r_def r2_def r1_def)
  have "n = ss - (i + 1)" using Suc(2) by simp
  from Suc(1) [OF this, of r' h1]
  obtain rs where rs: "length rs = ss - (i + 1)"
    "trace (snd (scd_smbus_block_read_issue m addr cmd ss (i + 1) r' h1))
         = trace h1 @ map (\<lambda>r. RegWrite (m_req m) (req_reg r)) rs"
    "\<forall>k < ss - (i + 1). req_ti (rs ! k) = req_ti r' + of_nat k \<and> req_t (rs ! k) = req_t r'
           \<and> req_dat (rs ! k) = req_dat r' \<and> req_ed (rs ! k) = req_ed r'"
    "feed (snd (scd_smbus_block_read_issue m addr cmd ss (i + 1) r' h1)) = feed h1"
    by blast
  have h1: "trace h1 = trace h @ [RegWrite (m_req m) (req_reg r)]" "feed h1 = feed h"
    by (simp_all add: h1_def smbus_master_write_req_def scd_write_register_def)
  have fields: "req_ti ((r # rs) ! k) = req_ti req + of_nat k \<and> req_t ((r # rs) ! k) = req_t req
           \<and> req_dat ((r # rs) ! k) = req_dat req \<and> req_ed ((r # rs) ! k) = req_ed req"
    if k: "k < ss - i" for k
  proof (cases k)
    case 0
    then show ?thesis by (simp add: rf)
  next
    case (Suc j)
    with k have "j < ss - (i + 1)" by simp
    with rs(3) Suc show ?thesis by (simp add: r'_def rf)
  qed
  show ?case
    apply (rule exI [of _ "r # rs"])
    using rs(1,2,4) h1 lt fields unfolding unf by simp
qed

lemma scd_smbus_block_read_wait_events:
  "\<exists>evs. list_all is_passive evs
     \<and> (off \<noteq> m_cs m \<longrightarrow> reg_reads off evs = [])
     \<and> trace (snd (snd (scd_smbus_block_read_wait m t ct cs h))) = trace h @ evs
     \<and> feed (snd (snd (scd_smbus_block_read_wait m t ct cs h))) = feed h"
proof (induction "t - ct" arbitrary: ct cs h)
  case 0
  then show ?case
    by (subst (1 2) scd_smbus_block_read_wait.simps) simp
next
  case (Suc n)
  show ?case
  proof (cases "cs_brb cs \<and> ct < t")
    case False
    then show ?thesis
      by (subst (1 2) scd_smbus_block_read_wait.simps) auto
  next
    case True
    obtain c1 h1 where rd:
      "smbus_master_read_cs m (msleep SMBUS_BLOCK_READ_TIMEOUT_STEP h) = (c1, h1)"
      by (cases "smbus_master_read_cs m (msleep SMBUS_BLOCK_READ_TIMEOUT_STEP h)")
    have h1: "trace h1 = trace h @ [Msleep 1, RegRead (m_cs m) c1]" "feed h1 = feed h"
      using rd by (auto simp: smbus_master_read_cs_eq msleep_def SMBUS_BLOCK_READ_TIMEOUT_STEP_def)
    have unf: "scd_smbus_block_read_wait m t ct cs h
        = scd_smbus_block_read_wait m t (ct + 1) c1 h1"
      using True rd
      by (subst scd_smbus_block_read_wait.simps) (simp add: SMBUS_BLOCK_READ_TIMEOUT_STEP_def)
    have "n = t - (ct + 1)" using Suc(2) by simp
    from Suc(1) [OF this, of c1 h1] obtain evs where
      "list_all is_passive evs" "off \<noteq> m_cs m \<longrightarrow> reg_reads off evs = []"
      "trace (snd (snd (scd_smbus_block_read_wait m t (ct + 1) c1 h1))) = trace h1 @ evs"
      "feed (snd (snd (scd_smbus_block_read_wait m t (ct + 1) c1 h1))) = feed h1"
      by blast
    then show ?thesis
      unfolding unf using h1
      by (intro exI [of _ "[Msleep 1, RegRead (m_cs m) c1] @ evs"]) auto
  qed
qed

lemma scd_smbus_block_read_ok:
  assumes "scd_smbus_block_read bus addr cmd d ds h = (st, d', h')"
  shows "\<exists>evs. trace h' = trace h @ evs \<and> feed h' = feed h
           \<and> block_read_ok bus addr ds d evs (st, d')"
proof -
  define m where "m = master bus"
  define ps where "ps = get_smbus_params bus addr"
  define req where "req = req_zero\<lparr>req_bs := ucast (bus_id bus), req_t := ucast (p_t ps),
                  req_st := True, req_ss := of_nat 3,
                  req_d := push_bit 1 (ucast addr), req_dod := True\<rparr>"
  define t :: nat where
    "t = (if 3 < p_t ps then 100 else [5, 35 + 5, 500 + 5, 1000 + 5] ! unat (p_t ps))"
  obtain req1 h1 where iss: "scd_smbus_block_read_issue m addr cmd 3 0 req h = (req1, h1)"
    by (cases "scd_smbus_block_read_issue m addr cmd 3 0 req h")
  from scd_smbus_block_read_issue_events [of 3 0 m addr cmd req h] iss
  obtain rs where rs: "length rs = 3"
    "trace h1 = trace h @ map (\<lambda>r. RegWrite (m_req m) (req_reg r)) rs"
    "\<forall>k < 3. req_ti (rs ! k) = req_ti req + of_nat k \<and> req_t (rs ! k) = req_t req
           \<and> req_dat (rs ! k) = req_dat req \<and> req_ed (rs ! k) = req_ed req"
    "feed h1 = feed h"
    by auto
  obtain cs0 h2 where rd: "smbus_master_read_cs m h1 = (cs0, h2)"
    by (cases "smbus_master_read_cs m h1")
  have h2: "trace h2 = trace h1 @ [RegRead (m_cs m) cs0]" "feed h2 = feed h1"
    using rd by (auto simp: smbus_master_read_cs_eq)
  obtain ct cs h3 where wt: "scd_smbus_block_read_wait m t 0 cs0 h2 = (ct, cs, h3)"
    by (cases "scd_smbus_block_read_wait m t 0 cs0 h2")
  from scd_smbus_block_read_wait_events [of "m_resp m" m t 0 cs0 h2] wt
  obtain wevs where wevs: "list_all is_passive wevs" "trace h3 = trace h2 @ wevs"
    "feed h3 = feed h2"
    and wevr: "m_resp m \<noteq> m_cs m \<longrightarrow> reg_reads (m_resp m) wevs = []"
    by auto
  have br: "scd_smbus_block_read bus addr cmd d ds h
      = (if ct = t then (Inl EINVAL, d, log_msg ''smbus response timeout'' h3)
         else scd_smbus_block_read_poll m ds (3 + 1) 0 0 d h3)"
    unfolding scd_smbus_block_read_def Let_def
    unfolding m_def [symmetric] ps_def [symmetric]
    unfolding req_def [symmetric] t_def [symmetric] iss prod.case rd wt
    by simp
  have rsf: "\<forall>k < 3. req_ti (rs ! k) = of_nat k \<and> req_t (rs ! k) = ucast (p_t ps)
                  \<and> req_dat (rs ! k) = 0 \<and> \<not> req_ed (rs ! k)"
    using rs(3) by (simp add: req_def req_zero_def)
  show ?thesis
  proof (cases "ct = t")
    case True
    with br assms have eq: "st = Inl EINVAL" "d' = d"
      "h' = log_msg ''smbus response timeout'' h3"
      by simp_all
    show ?thesis
      apply (rule exI [of _ "map (\<lambda>r. RegWrite (m_req m) (req_reg r)) rs
               @ ([RegRead (m_cs m) cs0] @ wevs @ [Log ''smbus response timeout''])"])
      unfolding block_read_ok_def prod.case eq
      apply (intro conjI)
        apply (simp add: log_msg_def wevs h2 rs)
       apply (simp add: log_msg_def wevs h2 rs)
      apply (rule exI [of _ rs],
          rule exI [of _ "[RegRead (m_cs m) cs0] @ wevs @ [Log ''smbus response timeout'']"])
      using rs(1) rsf wevs(1)
      by (auto simp: m_def ps_def)
  next
    case False
    with br assms have pl: "scd_smbus_block_read_poll m ds (3 + 1) 0 0 d h3 = (st, d', h')"
      by simp
    from scd_smbus_block_read_poll_inv [of m ds 0 d h3 "3 + 1" 0,
        unfolded pl block_read_poll_inv_def prod.case]
    obtain pevs where pevs: "trace h' = trace h3 @ pevs" "\<forall>off. reg_writes off pevs = []"
      "feed h' = feed h3" "d' = apply_stores (stores pevs) d"
      "\<forall>kv\<in>set (stores pevs). int (fst kv) < ds"
      "\<forall>e. st = Inl e \<longrightarrow>
          (\<exists>pre r. (e = EIO \<and> pevs = pre @ [RegRead (m_resp m) r]
                      \<and> (\<exists>t. smbus_resp_error r t \<noteq> None))
                \<or> (e = EINVAL
                    \<and> pevs = pre @ [RegRead (m_resp m) r,
                                    Log ''smbus read failed (output too big)'']))"
      "st = Inr () \<longrightarrow> m_cs m \<noteq> m_resp m \<longrightarrow>
          (\<forall>k < length (reg_reads (m_resp m) pevs).
              smbus_resp_error (reg_reads (m_resp m) pevs ! k)
                (ucast (0 + of_nat k :: 4 word)) = None)"
      by blast
    have ok: "\<forall>k < length (reg_reads (m_resp m) ([RegRead (m_cs m) cs0] @ wevs @ pevs)).
              smbus_resp_error (reg_reads (m_resp m) ([RegRead (m_cs m) cs0] @ wevs @ pevs) ! k)
                (ucast (of_nat k :: 4 word)) = None"
      if "st = Inr ()" "m_cs m \<noteq> m_resp m"
    proof -
      have "reg_reads (m_resp m) ([RegRead (m_cs m) cs0] @ wevs @ pevs)
              = reg_reads (m_resp m) pevs"
        using wevr that by simp
      with pevs(7) that show ?thesis by simp
    qed
    have fail: "\<exists>pre r. [RegRead (m_cs m) cs0] @ wevs @ pevs = pre @ [RegRead (m_resp m) r]
                    \<and> (\<exists>t. smbus_resp_error r t \<noteq> None)" if "st = Inl EIO"
    proof -
      from pevs(6) that obtain pre r where
        "pevs = pre @ [RegRead (m_resp m) r]" "\<exists>t. smbus_resp_error r t \<noteq> None"
        by auto
      then show ?thesis
        by (intro exI [of _ "[RegRead (m_cs m) cs0] @ wevs @ pre"] exI [of _ r]) simp
    qed
    show ?thesis
      apply (rule exI [of _ "map (\<lambda>r. RegWrite (m_req m) (req_reg r)) rs
               @ ([RegRead (m_cs m) cs0] @ wevs @ pevs)"])
      unfolding block_read_ok_def prod.case
      apply (intro conjI)
        apply (simp add: pevs wevs h2 rs)
       apply (simp add: pevs wevs h2 rs)
      apply (rule exI [of _ rs], rule exI [of _ "[RegRead (m_cs m) cs0] @ wevs @ pevs"])
      using rs(1) rsf wevs(1) pevs(2,4,5) fail ok
      by (auto simp: m_def ps_def)
  qed
qed

subsection \<open>The whole transaction\<close>

lemma scd_smbus_do_impl_generic:
  assumes "\<not> (sz = I2C_SMBUS_BLOCK_DATA \<and> rw \<noteq> I2C_SMBUS_WRITE)"
  shows "scd_smbus_do_impl bus addr flags rw cmd sz d ds fr h
     = scd_smbus_do_impl_xfer bus addr rw cmd sz d ds fr
         (fst (scd_smbus_do_impl_ss rw sz d ds)) (snd (scd_smbus_do_impl_ss rw sz d ds)) h"
  apply (subst scd_smbus_do_impl.simps)
  apply (simp only: assms if_False)
  apply (simp split: prod.splits)
  done

lemma scd_smbus_do_impl_probe:
  "scd_smbus_do_impl bus addr flags I2C_SMBUS_READ cmd I2C_SMBUS_BYTE_DATA d ds fr h
     = scd_smbus_do_impl_xfer bus addr I2C_SMBUS_READ cmd I2C_SMBUS_BYTE_DATA d ds fr 0 4 h"
  by (subst scd_smbus_do_impl_generic)
     (simp_all add: scd_smbus_do_impl_ss_def I2C_SMBUS_BLOCK_DATA_def I2C_SMBUS_BYTE_DATA_def
        I2C_SMBUS_QUICK_def I2C_SMBUS_BYTE_def I2C_SMBUS_READ_def I2C_SMBUS_WRITE_def)

lemma scd_smbus_do_impl_ok:
  assumes "scd_smbus_do_impl bus addr flags rw cmd sz d ds fr h = (st, d', fr', h')"
  shows "\<exists>evs. trace h' = trace h @ evs \<and> feed h' = feed h
           \<and> do_impl_ok bus addr rw sz ds fr d evs (st, d', fr')"
proof (cases "sz = I2C_SMBUS_BLOCK_DATA \<and> rw \<noteq> I2C_SMBUS_WRITE")
  case False
  with assms have "scd_smbus_do_impl_xfer bus addr rw cmd sz d ds fr
         (fst (scd_smbus_do_impl_ss rw sz d ds)) (snd (scd_smbus_do_impl_ss rw sz d ds)) h
       = (st, d', fr', h')"
    by (simp add: scd_smbus_do_impl_generic)
  from scd_smbus_do_impl_xfer_ok [OF this] False show ?thesis
    by (auto simp: do_impl_ok_def)
next
  case blk: True
  define m where "m = master bus"
  show ?thesis
  proof (cases "br_supported m")
    case True
    obtain st1 d1 h1 where br: "scd_smbus_block_read bus addr cmd d ds h = (st1, d1, h1)"
      by (cases "scd_smbus_block_read bus addr cmd d ds h")
    from scd_smbus_block_read_ok [OF br] obtain bevs where bevs:
      "trace h1 = trace h @ bevs" "feed h1 = feed h"
      "block_read_ok bus addr ds d bevs (st1, d1)"
      by blast
    have unf: "scd_smbus_do_impl bus addr flags rw cmd sz d ds fr h
        = (case st1 of
             Inl e \<Rightarrow> scd_smbus_do_impl_fail m e d1 (SET_FAIL_REASON ''block read failed'') h1
           | Inr _ \<Rightarrow> (Inr (), d1, fr, h1))"
      using blk True br
      by (subst scd_smbus_do_impl.simps) (simp add: m_def split: sum.splits)
    show ?thesis
    proof (cases st1)
      case (Inr u)
      with unf assms have eq: "st = Inr ()" "d' = d1" "fr' = fr" "h' = h1" by simp_all
      have "st1 = Inr ()" using Inr by simp
      with bevs blk True show ?thesis
        unfolding do_impl_ok_def prod.case eq
        by (intro exI [of _ "bevs @ []"]) (auto simp: m_def)
    next
      case (Inl e)
      with unf assms have eq: "st = Inl e" "d' = d1" "h' = smbus_master_reset m h1"
        by (simp_all add: scd_smbus_do_impl_fail_def)
      define v where "v = feed h1 (m_cs m) (nreads h1 (m_cs m))"
      have tr: "trace h' = trace h1 @ spec_master_reset_events (m_cs m) v"
        by (simp add: eq smbus_master_reset_trace v_def)
      show ?thesis
        apply (rule exI [of _ "bevs @ spec_master_reset_events (m_cs m) v"])
        unfolding do_impl_ok_def prod.case
        apply (intro conjI)
          apply (simp add: tr bevs)
         apply (simp add: eq bevs)
        using blk True bevs(3) Inl eq(1,2)
        by (auto simp: m_def)
    qed
  next
    case nobr: False
    obtain st1 d1 fr1 h1 where pr:
      "scd_smbus_do_impl_xfer bus addr I2C_SMBUS_READ cmd I2C_SMBUS_BYTE_DATA d ds [] 0 4 h
         = (st1, d1, fr1, h1)"
      by (cases "scd_smbus_do_impl_xfer bus addr I2C_SMBUS_READ cmd I2C_SMBUS_BYTE_DATA d ds
                   [] 0 4 h")
    from scd_smbus_do_impl_xfer_ok [OF pr] obtain evs1 where evs1:
      "trace h1 = trace h @ evs1" "feed h1 = feed h"
      "xfer_ok bus addr I2C_SMBUS_READ I2C_SMBUS_BYTE_DATA ds 4 [] d evs1 (st1, d1, fr1)"
      by blast
    have ss: "snd (scd_smbus_do_impl_ss rw I2C_SMBUS_BLOCK_DATA d1 ds) = 4 + unat (d1 0)"
      using blk
      by (simp add: scd_smbus_do_impl_ss_def I2C_SMBUS_BLOCK_DATA_def I2C_SMBUS_BYTE_DATA_def
        I2C_SMBUS_QUICK_def I2C_SMBUS_BYTE_def I2C_SMBUS_WORD_DATA_def
        I2C_SMBUS_I2C_BLOCK_DATA_def I2C_SMBUS_I2C_BLOCK_DATA_MSG_def)
    have unf: "scd_smbus_do_impl bus addr flags rw cmd sz d ds fr h
        = (case st1 of
             Inl e \<Rightarrow> scd_smbus_do_impl_fail m e d1 (SET_FAIL_REASON (''block size: '' @ fr1)) h1
           | Inr _ \<Rightarrow> scd_smbus_do_impl_xfer bus addr rw cmd sz d1 ds fr 0
                        (4 + unat (d1 0)) h1)"
      using blk nobr
      by (subst scd_smbus_do_impl.simps)
         (simp add: m_def scd_smbus_do_impl_probe pr ss split: sum.splits)
    show ?thesis
    proof (cases st1)
      case (Inl e)
      with unf assms have eq: "st = Inl e" "d' = d1" "h' = smbus_master_reset m h1"
        by (simp_all add: scd_smbus_do_impl_fail_def)
      define v where "v = feed h1 (m_cs m) (nreads h1 (m_cs m))"
      have tr: "trace h' = trace h1 @ spec_master_reset_events (m_cs m) v"
        by (simp add: eq smbus_master_reset_trace v_def)
      show ?thesis
        apply (rule exI [of _ "evs1 @ spec_master_reset_events (m_cs m) v"])
        unfolding do_impl_ok_def prod.case
        apply (intro conjI)
          apply (simp add: tr evs1)
         apply (simp add: eq evs1)
        using blk nobr evs1(3) Inl eq(1,2)
        by (auto simp: m_def intro!: exI [of _ evs1] exI [of _ st1] exI [of _ d1] exI [of _ fr1])
    next
      case (Inr u)
      with unf assms have x2: "scd_smbus_do_impl_xfer bus addr rw cmd sz d1 ds fr 0
                        (4 + unat (d1 0)) h1 = (st, d', fr', h')"
        by simp
      from scd_smbus_do_impl_xfer_ok [OF x2] obtain evs2 where evs2:
        "trace h' = trace h1 @ evs2" "feed h' = feed h1"
        "xfer_ok bus addr rw sz ds (4 + unat (d1 0)) fr d1 evs2 (st, d', fr')"
        by blast
      show ?thesis
        apply (rule exI [of _ "evs1 @ evs2"])
        unfolding do_impl_ok_def prod.case
        apply (intro conjI)
          apply (simp add: evs2 evs1)
         apply (simp add: evs2 evs1)
        using blk nobr evs1(3) evs2(3) Inr
        by (auto simp: m_def intro!: exI [of _ evs1] exI [of _ st1] exI [of _ d1] exI [of _ fr1])
    qed
  qed
qed

subsection \<open>The parts of a result\<close>

lemma r_simps [simp]:
  "r_status (st, d, fr, h) = st" "r_data (st, d, fr, h) = d"
  "r_reason (st, d, fr, h) = fr" "r_hw (st, d, fr, h) = h"
  by (simp_all add: r_status_def r_data_def r_reason_def r_hw_def)

subsection \<open>Capacity errors\<close>

lemma xfer_ok_EINVAL:
  assumes "xfer_ok bus addr rw sz ds ss fr d evs (Inl EINVAL, d', fr')"
  shows "(\<exists>pre v. evs = pre @ spec_master_reset_events (m_cs (master bus)) v)
         \<and> fr' = ''buffer too short'' \<and> is_block_size sz"
proof -
  from assms [unfolded xfer_ok_def prod.case] obtain rs pevs tail where
    e: "evs = map (\<lambda>r. RegWrite (m_req (master bus)) (req_reg r)) rs @ pevs @ tail"
    and f: "\<forall>e. (Inl EINVAL :: status) = Inl e \<longrightarrow>
              (\<exists>v. tail = spec_master_reset_events (m_cs (master bus)) v)
              \<and> (\<exists>pre r. pevs = pre @ [RegRead (m_resp (master bus)) r]
                   \<and> ((e = EIO \<and> (\<exists>t. smbus_resp_error r t \<noteq> None))
                      \<or> (e = EINVAL \<and> is_block_size sz \<and> rw = I2C_SMBUS_READ
                          \<and> fr' = ''buffer too short'')))"
    by blast
  from f have "(\<exists>v. tail = spec_master_reset_events (m_cs (master bus)) v)
      \<and> is_block_size sz \<and> fr' = ''buffer too short''"
    by auto
  then obtain v where "tail = spec_master_reset_events (m_cs (master bus)) v"
    "is_block_size sz" "fr' = ''buffer too short''"
    by blast
  with e show ?thesis
    by (intro conjI exI [of _ "map (\<lambda>r. RegWrite (m_req (master bus)) (req_reg r)) rs @ pevs"]
          exI [of _ v]) simp_all
qed

lemma do_impl_ok_EINVAL:
  assumes "do_impl_ok bus addr rw sz ds fr d evs (Inl EINVAL, d', fr')"
  shows "(\<exists>pre v. evs = pre @ spec_master_reset_events (m_cs (master bus)) v)
         \<and> (\<not> (sz = I2C_SMBUS_BLOCK_DATA \<and> rw \<noteq> I2C_SMBUS_WRITE \<and> br_supported (master bus))
              \<longrightarrow> fr' = ''buffer too short'')"
proof (cases "sz = I2C_SMBUS_BLOCK_DATA \<and> rw \<noteq> I2C_SMBUS_WRITE")
  case False
  with assms have "xfer_ok bus addr rw sz ds (snd (scd_smbus_do_impl_ss rw sz d ds)) fr d evs
               (Inl EINVAL, d', fr')"
    by (simp add: do_impl_ok_def)
  from xfer_ok_EINVAL [OF this] show ?thesis by blast
next
  case blk: True
  show ?thesis
  proof (cases "br_supported (master bus)")
    case True
    with blk assms obtain bevs tail where b: "evs = bevs @ tail"
      "\<exists>v. tail = spec_master_reset_events (m_cs (master bus)) v"
      by (auto simp: do_impl_ok_def)
    from b(2) obtain v where "tail = spec_master_reset_events (m_cs (master bus)) v"
      by blast
    with b(1) True blk show ?thesis
      by (intro conjI exI [of _ bevs] exI [of _ v]) simp_all
  next
    case False
    with blk assms obtain evs1 st1 d1 fr1 where p:
      "xfer_ok bus addr I2C_SMBUS_READ I2C_SMBUS_BYTE_DATA ds 4 [] d evs1 (st1, d1, fr1)"
      "case st1 of
         Inl e \<Rightarrow> (Inl EINVAL :: status) = Inl e \<and> d' = d1
            \<and> (\<exists>v. evs = evs1 @ spec_master_reset_events (m_cs (master bus)) v)
       | Inr _ \<Rightarrow> (\<exists>evs2. evs = evs1 @ evs2
            \<and> xfer_ok bus addr rw sz ds (4 + unat (d1 0)) fr d1 evs2 (Inl EINVAL, d', fr'))"
      by (auto simp: do_impl_ok_def)
    show ?thesis
    proof (cases st1)
      case (Inl e)
      with p(2) have "e = EINVAL" by simp
      from xfer_ok_EINVAL [OF p(1) [unfolded Inl this]]
      have "is_block_size I2C_SMBUS_BYTE_DATA" by blast
      then show ?thesis by (simp add: is_block_size_def)
    next
      case (Inr u)
      with p(2) obtain evs2 where e: "evs = evs1 @ evs2"
        "xfer_ok bus addr rw sz ds (4 + unat (d1 0)) fr d1 evs2 (Inl EINVAL, d', fr')"
        by auto
      from xfer_ok_EINVAL [OF e(2)] obtain pre v where
        "evs2 = pre @ spec_master_reset_events (m_cs (master bus)) v"
        "fr' = ''buffer too short''"
        by blast
      with e(1) show ?thesis
        by (intro conjI exI [of _ "evs1 @ pre"] exI [of _ v]) simp_all
    qed
  qed
qed

lemma scd_smbus_access_impl_no_retry:
  assumes "scd_smbus_do_impl bus addr flags rw cmd sz d ds [] h = (st, d', fr', h')"
    and "st \<noteq> Inl EIO"
  shows "scd_smbus_access_impl bus addr flags rw cmd sz d ds h = (st, d', h')"
  unfolding scd_smbus_access_impl_def
  by (subst scd_smbus_access_impl_loop.simps) (simp add: scd_smbus_do_def assms)

text \<open>
  C10. When \<^verbatim>\<open>scd_smbus_do_impl\<close> returns \<open>-EINVAL\<close> (on the generic path this is the
  capacity error, with the reason \<open>buffer too short\<close>), the last accesses of the call
  are the same master reset as after a protocol error: read control/status, write it
  with the reset and overflow-clear bits set, hold 50 ms, write it with the reset bit
  cleared, hold 50 ms. \<^verbatim>\<open>scd_smbus_access_impl\<close> then returns \<open>-EINVAL\<close> after this one
  attempt: its result is the buffer and the device state the attempt left.
\<close>

theorem scd_smbus_do_impl_capacity_error_resets:
  "r_status (scd_smbus_do_impl bus addr flags rw cmd sz d ds [] h) = Inl EINVAL \<longrightarrow>
     (\<exists>pre v. trace (r_hw (scd_smbus_do_impl bus addr flags rw cmd sz d ds [] h))
                 = trace h @ pre @ spec_master_reset_events (m_cs (master bus)) v)
     \<and> (\<not> (sz = I2C_SMBUS_BLOCK_DATA \<and> rw \<noteq> I2C_SMBUS_WRITE \<and> br_supported (master bus))
          \<longrightarrow> r_reason (scd_smbus_do_impl bus addr flags rw cmd sz d ds [] h)
                = ''buffer too short'')
     \<and> scd_smbus_access_impl bus addr flags rw cmd sz d ds h
         = (Inl EINVAL, r_data (scd_smbus_do_impl bus addr flags rw cmd sz d ds [] h),
            r_hw (scd_smbus_do_impl bus addr flags rw cmd sz d ds [] h))"
proof -
  obtain st d' fr' h' where R:
    "scd_smbus_do_impl bus addr flags rw cmd sz d ds [] h = (st, d', fr', h')"
    by (cases "scd_smbus_do_impl bus addr flags rw cmd sz d ds [] h")
  from scd_smbus_do_impl_ok [OF R] obtain evs where evs: "trace h' = trace h @ evs"
    "do_impl_ok bus addr rw sz ds [] d evs (st, d', fr')"
    by blast
  show ?thesis
    unfolding R r_simps
  proof (rule impI)
    assume st: "st = Inl EINVAL"
    from do_impl_ok_EINVAL [OF evs(2) [unfolded st]] obtain pre v where
      "evs = pre @ spec_master_reset_events (m_cs (master bus)) v"
      by blast
    with evs(1) have g1: "\<exists>pre v. trace h' = trace h @ pre
                        @ spec_master_reset_events (m_cs (master bus)) v"
      by (intro exI [of _ pre] exI [of _ v]) simp
    from do_impl_ok_EINVAL [OF evs(2) [unfolded st]]
    have g2: "\<not> (sz = I2C_SMBUS_BLOCK_DATA \<and> rw \<noteq> I2C_SMBUS_WRITE
                  \<and> br_supported (master bus))
          \<longrightarrow> fr' = ''buffer too short''"
      by blast
    from scd_smbus_access_impl_no_retry [OF R] st
    have g3: "scd_smbus_access_impl bus addr flags rw cmd sz d ds h = (Inl EINVAL, d', h')"
      by simp
    show "(\<exists>pre v. trace h' = trace h @ pre
                        @ spec_master_reset_events (m_cs (master bus)) v)
        \<and> (\<not> (sz = I2C_SMBUS_BLOCK_DATA \<and> rw \<noteq> I2C_SMBUS_WRITE
                  \<and> br_supported (master bus))
          \<longrightarrow> fr' = ''buffer too short'')
        \<and> scd_smbus_access_impl bus addr flags rw cmd sz d ds h = (Inl EINVAL, d', h')"
      by (rule conjI [OF g1 conjI [OF g2 g3]])
  qed
qed

theorem scd_smbus_do_impl_capacity_error_resets_witness:
  "r_status (scd_smbus_do_impl ex_bus 0x50 0 I2C_SMBUS_READ 7 I2C_SMBUS_I2C_BLOCK_DATA
               (ex_buf 1) 1 [] ex_hw_echo) = Inl EINVAL
   \<and> (\<exists>pre v. trace (r_hw (scd_smbus_do_impl ex_bus 0x50 0 I2C_SMBUS_READ 7
                                 I2C_SMBUS_I2C_BLOCK_DATA (ex_buf 1) 1 [] ex_hw_echo))
                 = trace ex_hw_echo @ pre @ spec_master_reset_events (m_cs (master ex_bus)) v)
   \<and> r_reason (scd_smbus_do_impl ex_bus 0x50 0 I2C_SMBUS_READ 7
                  I2C_SMBUS_I2C_BLOCK_DATA (ex_buf 1) 1 [] ex_hw_echo)
       = ''buffer too short''
   \<and> scd_smbus_access_impl ex_bus 0x50 0 I2C_SMBUS_READ 7 I2C_SMBUS_I2C_BLOCK_DATA
         (ex_buf 1) 1 ex_hw_echo
       = (Inl EINVAL,
          r_data (scd_smbus_do_impl ex_bus 0x50 0 I2C_SMBUS_READ 7 I2C_SMBUS_I2C_BLOCK_DATA
                    (ex_buf 1) 1 [] ex_hw_echo),
          r_hw (scd_smbus_do_impl ex_bus 0x50 0 I2C_SMBUS_READ 7 I2C_SMBUS_I2C_BLOCK_DATA
                  (ex_buf 1) 1 [] ex_hw_echo))"
proof -
  have a: "r_status (scd_smbus_do_impl ex_bus 0x50 0 I2C_SMBUS_READ 7 I2C_SMBUS_I2C_BLOCK_DATA
               (ex_buf 1) 1 [] ex_hw_echo) = Inl EINVAL"
    by code_simp
  have n: "\<not> (I2C_SMBUS_I2C_BLOCK_DATA = I2C_SMBUS_BLOCK_DATA
                \<and> I2C_SMBUS_READ \<noteq> I2C_SMBUS_WRITE \<and> br_supported (master ex_bus))"
    by (simp add: I2C_SMBUS_I2C_BLOCK_DATA_def I2C_SMBUS_BLOCK_DATA_def)
  note t = scd_smbus_do_impl_capacity_error_resets [where bus = ex_bus and addr = "0x50"
      and flags = 0 and rw = I2C_SMBUS_READ and cmd = 7 and sz = I2C_SMBUS_I2C_BLOCK_DATA
      and d = "ex_buf 1" and ds = 1 and h = ex_hw_echo, THEN mp, OF a]
  note t1 = t [THEN conjunct1]
  note t2 = t [THEN conjunct2, THEN conjunct1, THEN mp, OF n]
  note t3 = t [THEN conjunct2, THEN conjunct2]
  show ?thesis
    by (rule conjI [OF a conjI [OF t1 conjI [OF t2 t3]]])
qed

subsection \<open>Phase counts and transaction-ids\<close>

lemma reg_writes_reset [simp]:
  "a \<noteq> off \<Longrightarrow> reg_writes off (spec_master_reset_events a v) = []"
  by (simp add: spec_master_reset_events_def)

lemma xfer_ok_tids:
  assumes "xfer_ok bus addr rw sz ds ss fr d evs res"
    and "m_req (master bus) \<noteq> m_cs (master bus)"
  shows "phase_tids (m_req (master bus)) evs = map (\<lambda>k. k mod 16) [0..<ss]"
proof -
  obtain st d' fr' where res: "res = (st, d', fr')" by (cases res)
  define req0 where "req0 = req_zero\<lparr>req_bs := ucast (bus_id bus),
                            req_t := ucast (p_t (get_smbus_params bus addr))\<rparr>"
  from assms(1) [unfolded res xfer_ok_def prod.case, folded req0_def]
  obtain rs pevs tail where
    e: "evs = map (\<lambda>r. RegWrite (m_req (master bus)) (req_reg r)) rs @ pevs @ tail"
    and ph: "phases_ok (get_smbus_params bus addr) rw ss 0 req0 rs"
    and pw: "\<forall>off. reg_writes off pevs = []"
    and fl: "\<forall>e. st = Inl e \<longrightarrow>
                (\<exists>v. tail = spec_master_reset_events (m_cs (master bus)) v)
                \<and> (\<exists>pre r. pevs = pre @ [RegRead (m_resp (master bus)) r]
                     \<and> ((e = EIO \<and> (\<exists>t. smbus_resp_error r t \<noteq> None))
                        \<or> (e = EINVAL \<and> is_block_size sz \<and> rw = I2C_SMBUS_READ
                            \<and> fr' = ''buffer too short'')))"
    and ok: "st = Inr () \<longrightarrow> tail = [] \<and> fr' = fr
                \<and> (m_cs (master bus) \<noteq> m_resp (master bus) \<longrightarrow>
                     length (reg_reads (m_resp (master bus)) pevs) = ss
                     \<and> (\<forall>k < ss. smbus_resp_error (reg_reads (m_resp (master bus)) pevs ! k)
                                      (ucast (of_nat k :: 4 word)) = None))"
    by blast
  have tl: "reg_writes (m_req (master bus)) tail = []"
  proof (cases st)
    case (Inl e)
    with fl obtain v where "tail = spec_master_reset_events (m_cs (master bus)) v" by blast
    with assms(2) show ?thesis by simp
  next
    case (Inr u)
    with ok show ?thesis by simp
  qed
  have w: "reg_writes (m_req (master bus)) evs = map req_reg rs"
    using pw tl by (simp add: e)
  have len: "length rs = ss" using ph by (simp add: phases_ok_def)
  have ti: "req_ti (rs ! k) = of_nat k" if "k < ss" for k
    using ph that by (simp add: phases_ok_def req0_def req_zero_def)
  show ?thesis
    unfolding phase_tids_def w
    by (rule nth_equalityI) (simp_all add: len ti unat_of_nat)
qed


lemma scd_smbus_do_impl_xfer_tids:
  assumes "m_req (master bus) \<noteq> m_cs (master bus)"
  shows "phase_tids (m_req (master bus))
           (new_events h (r_hw (scd_smbus_do_impl_xfer bus addr rw cmd sz d ds fr doff ss h)))
         = map (\<lambda>k. k mod 16) [0..<ss]"
proof -
  obtain st d' fr' h' where
    r: "scd_smbus_do_impl_xfer bus addr rw cmd sz d ds fr doff ss h = (st, d', fr', h')"
    by (cases "scd_smbus_do_impl_xfer bus addr rw cmd sz d ds fr doff ss h")
  from scd_smbus_do_impl_xfer_ok [OF r] obtain evs where
    t: "trace h' = trace h @ evs"
    and x: "xfer_ok bus addr rw sz ds ss fr d evs (st, d', fr')" by blast
  have "new_events h h' = evs" by (simp add: new_events_def t)
  with xfer_ok_tids [OF x assms] show ?thesis by (simp add: r r_hw_def)
qed

lemma scd_smbus_do_impl_tids_generic:
  assumes "\<not> (sz = I2C_SMBUS_BLOCK_DATA \<and> rw \<noteq> I2C_SMBUS_WRITE)"
    and "m_req (master bus) \<noteq> m_cs (master bus)"
  shows "phase_tids (m_req (master bus))
           (new_events h (r_hw (scd_smbus_do_impl bus addr flags rw cmd sz d ds fr h)))
         = map (\<lambda>k. k mod 16) [0..<snd (scd_smbus_do_impl_ss rw sz d ds)]"
  unfolding scd_smbus_do_impl_generic [OF assms(1)]
  by (rule scd_smbus_do_impl_xfer_tids [OF assms(2)])


lemma phase_tids_append:
  "phase_tids off (xs @ ys) = phase_tids off xs @ phase_tids off ys"
  by (simp add: phase_tids_def reg_writes_append)

lemma phase_tids_reset [simp]:
  "a \<noteq> off \<Longrightarrow> phase_tids off (spec_master_reset_events a v) = []"
  by (simp add: phase_tids_def)

lemma new_events_append [simp]: "trace h' = trace h @ evs \<Longrightarrow> new_events h h' = evs"
  by (simp add: new_events_def)

lemma scd_smbus_do_impl_tids_block_read:
  assumes sz: "sz = I2C_SMBUS_BLOCK_DATA" and rw: "rw \<noteq> I2C_SMBUS_WRITE"
    and br: "\<not> br_supported (master bus)"
    and ne: "m_req (master bus) \<noteq> m_cs (master bus)"
  shows "phase_tids (m_req (master bus))
           (new_events h (r_hw (scd_smbus_do_impl bus addr flags rw cmd sz d ds fr h)))
         = [0, 1, 2, 3]
           @ (case r_status (scd_smbus_do_impl bus addr flags I2C_SMBUS_READ cmd
                               I2C_SMBUS_BYTE_DATA d ds [] h) of
                Inl e \<Rightarrow> []
              | Inr u \<Rightarrow>
                  map (\<lambda>k. k mod 16)
                    [0..<4 + unat (r_data (scd_smbus_do_impl bus addr flags I2C_SMBUS_READ cmd
                                             I2C_SMBUS_BYTE_DATA d ds [] h) 0)])"
proof -
  obtain st1 d1 fr1 h1 where
    p: "scd_smbus_do_impl bus addr flags I2C_SMBUS_READ cmd I2C_SMBUS_BYTE_DATA d ds [] h
          = (st1, d1, fr1, h1)"
    by (cases "scd_smbus_do_impl bus addr flags I2C_SMBUS_READ cmd I2C_SMBUS_BYTE_DATA d ds [] h")
  have px: "scd_smbus_do_impl_xfer bus addr I2C_SMBUS_READ cmd I2C_SMBUS_BYTE_DATA d ds [] 0 4 h
          = (st1, d1, fr1, h1)"
    using p by (simp add: scd_smbus_do_impl_probe)
  from scd_smbus_do_impl_xfer_ok [OF px] obtain e1 where
    t1: "trace h1 = trace h @ e1"
    and x1: "xfer_ok bus addr I2C_SMBUS_READ I2C_SMBUS_BYTE_DATA ds 4 [] d e1 (st1, d1, fr1)"
    by blast
  have four: "map (\<lambda>k. k mod 16) [0..<4] = [0, 1, 2, 3::nat]" by code_simp
  have i1: "phase_tids (m_req (master bus)) e1 = [0, 1, 2, 3]"
    using xfer_ok_tids [OF x1 ne] by (simp only: four)
  have ss: "snd (scd_smbus_do_impl_ss rw sz d1 ds) = 4 + unat (d1 0)"
    using sz rw by (simp add: scd_smbus_do_impl_ss_def I2C_SMBUS_BLOCK_DATA_def
        I2C_SMBUS_QUICK_def I2C_SMBUS_BYTE_def I2C_SMBUS_BYTE_DATA_def I2C_SMBUS_WORD_DATA_def
        I2C_SMBUS_I2C_BLOCK_DATA_MSG_def I2C_SMBUS_I2C_BLOCK_DATA_def)
  have u: "scd_smbus_do_impl bus addr flags rw cmd sz d ds fr h
     = (case st1 of
          Inl e \<Rightarrow> scd_smbus_do_impl_fail (master bus) e d1
                     (SET_FAIL_REASON (''block size: '' @ fr1)) h1
        | Inr u \<Rightarrow> scd_smbus_do_impl_xfer bus addr rw cmd sz d1 ds fr 0 (4 + unat (d1 0)) h1)"
    apply (subst scd_smbus_do_impl.simps)
    apply (simp only: sz [symmetric] rw br simp_thms if_True if_False p prod.case ss)
    done
  show ?thesis
  proof (cases st1)
    case (Inl e)
    have "trace (r_hw (scd_smbus_do_impl bus addr flags rw cmd sz d ds fr h))
            = trace h @ e1 @ spec_master_reset_events (m_cs (master bus))
                               (feed h1 (m_cs (master bus)) (nreads h1 (m_cs (master bus))))"
      by (simp add: u Inl scd_smbus_do_impl_fail_def r_hw_def smbus_master_reset_trace t1)
    from new_events_append [OF this] show ?thesis
      using ne by (simp add: phase_tids_append i1 p r_status_def Inl)
  next
    case (Inr v)
    obtain st d' fr' h' where
      r: "scd_smbus_do_impl_xfer bus addr rw cmd sz d1 ds fr 0 (4 + unat (d1 0)) h1
            = (st, d', fr', h')"
      by (cases "scd_smbus_do_impl_xfer bus addr rw cmd sz d1 ds fr 0 (4 + unat (d1 0)) h1")
    from scd_smbus_do_impl_xfer_ok [OF r] obtain e2 where
      t2: "trace h' = trace h1 @ e2"
      and x2: "xfer_ok bus addr rw sz ds (4 + unat (d1 0)) fr d1 e2 (st, d', fr')" by blast
    have "trace (r_hw (scd_smbus_do_impl bus addr flags rw cmd sz d ds fr h))
            = trace h @ e1 @ e2"
      by (simp add: u Inr r r_hw_def t1 t2)
    from new_events_append [OF this] show ?thesis
      using xfer_ok_tids [OF x2 ne]
      by (simp add: phase_tids_append i1 p r_status_def r_data_def Inr)
  qed
qed


lemma spec_phase_count_ss:
  assumes "spec_phase_count rw sz d ds = Some n" and "sz \<noteq> I2C_SMBUS_BLOCK_DATA"
    and "sz = I2C_SMBUS_I2C_BLOCK_DATA_MSG \<longrightarrow> 0 \<le> ds \<and> ds < 2 ^ 31"
  shows "snd (scd_smbus_do_impl_ss rw sz d ds) = n"
proof (cases "sz = I2C_SMBUS_I2C_BLOCK_DATA_MSG")
  case True
  with assms(3) have b: "0 \<le> ds" "ds < 2 ^ 31" by simp_all
  have "(2 + ds) mod 2 ^ 32 = 2 + ds" "(3 + ds) mod 2 ^ 32 = 3 + ds"
    using b by simp_all
  moreover have "nat (2 + ds) = 2 + nat ds" "nat (3 + ds) = 3 + nat ds" using b by linarith+
  ultimately show ?thesis
    using assms(1) True
    by (simp add: spec_phase_count_def scd_smbus_do_impl_ss_def I2C_SMBUS_QUICK_def
        I2C_SMBUS_BYTE_def I2C_SMBUS_BYTE_DATA_def I2C_SMBUS_WORD_DATA_def
        I2C_SMBUS_I2C_BLOCK_DATA_MSG_def split: if_splits)
next
  case False
  with assms(1,2) show ?thesis
    by (auto simp add: spec_phase_count_def scd_smbus_do_impl_ss_def split: if_splits)
qed

text \<open>
  C1 (amended). On a master whose request and control/status registers are distinct, the
  transaction-ids of the phases \<^verbatim>\<open>scd_smbus_do_impl\<close> issues on the generic path are
  \<open>k mod 16\<close> for \<open>k = 0, ..., n - 1\<close>: the id is a 4-bit counter, so the ids are \<open>0, ..., n - 1\<close>
  when \<open>n \<le> 16\<close> and start again at 0 after 15 otherwise. For every shape but
  \<^verbatim>\<open>I2C_SMBUS_BLOCK_DATA\<close> the number \<open>n\<close> of phases is the one of the table of section 4.2
  (for the address-prefixed block, with a length \<open>0 \<le> len < 2^31\<close>). A
  \<^verbatim>\<open>I2C_SMBUS_BLOCK_DATA\<close> write issues \<open>3 + buf[0]\<close> phases. A \<^verbatim>\<open>I2C_SMBUS_BLOCK_DATA\<close> read
  without hardware assistance first issues the 4 phases of a byte-data read that probes
  the length and, if that exchange succeeds and stores the length \<open>L\<close> in \<open>buf[0]\<close>, a
  second exchange of \<open>4 + L\<close> phases whose ids start again at 0.
\<close>

theorem scd_smbus_do_impl_phase_ids:
  assumes "m_req (master bus) \<noteq> m_cs (master bus)"
  shows "(sz \<noteq> I2C_SMBUS_BLOCK_DATA \<longrightarrow>
            (sz = I2C_SMBUS_I2C_BLOCK_DATA_MSG \<longrightarrow> 0 \<le> ds \<and> ds < 2 ^ 31) \<longrightarrow>
            spec_phase_count rw sz d ds = Some n \<longrightarrow>
              phase_tids (m_req (master bus))
                (new_events h (r_hw (scd_smbus_do_impl bus addr flags rw cmd sz d ds fr h)))
              = map (\<lambda>k. k mod 16) [0..<n]
              \<and> (n \<le> 16 \<longrightarrow>
                   phase_tids (m_req (master bus))
                     (new_events h (r_hw (scd_smbus_do_impl bus addr flags rw cmd sz d ds fr h)))
                   = [0..<n]))
       \<and> (sz = I2C_SMBUS_BLOCK_DATA \<and> rw = I2C_SMBUS_WRITE \<longrightarrow>
            phase_tids (m_req (master bus))
              (new_events h (r_hw (scd_smbus_do_impl bus addr flags rw cmd sz d ds fr h)))
            = map (\<lambda>k. k mod 16) [0..<3 + unat (d 0)])
       \<and> (sz = I2C_SMBUS_BLOCK_DATA \<and> rw \<noteq> I2C_SMBUS_WRITE \<and> \<not> br_supported (master bus) \<longrightarrow>
            phase_tids (m_req (master bus))
              (new_events h (r_hw (scd_smbus_do_impl bus addr flags rw cmd sz d ds fr h)))
            = [0, 1, 2, 3]
              @ (case r_status (scd_smbus_do_impl bus addr flags I2C_SMBUS_READ cmd
                                  I2C_SMBUS_BYTE_DATA d ds [] h) of
                   Inl e \<Rightarrow> []
                 | Inr u \<Rightarrow>
                     map (\<lambda>k. k mod 16)
                       [0..<4 + unat (r_data (scd_smbus_do_impl bus addr flags I2C_SMBUS_READ cmd
                                                I2C_SMBUS_BYTE_DATA d ds [] h) 0)]))"
proof -
  have g1: "sz \<noteq> I2C_SMBUS_BLOCK_DATA \<longrightarrow>
            (sz = I2C_SMBUS_I2C_BLOCK_DATA_MSG \<longrightarrow> 0 \<le> ds \<and> ds < 2 ^ 31) \<longrightarrow>
            spec_phase_count rw sz d ds = Some n \<longrightarrow>
              phase_tids (m_req (master bus))
                (new_events h (r_hw (scd_smbus_do_impl bus addr flags rw cmd sz d ds fr h)))
              = map (\<lambda>k. k mod 16) [0..<n]
              \<and> (n \<le> 16 \<longrightarrow>
                   phase_tids (m_req (master bus))
                     (new_events h (r_hw (scd_smbus_do_impl bus addr flags rw cmd sz d ds fr h)))
                   = [0..<n])"
  proof (intro impI)
    assume a: "sz \<noteq> I2C_SMBUS_BLOCK_DATA"
      and b: "sz = I2C_SMBUS_I2C_BLOCK_DATA_MSG \<longrightarrow> 0 \<le> ds \<and> ds < 2 ^ 31"
      and c: "spec_phase_count rw sz d ds = Some n"
    from a have "\<not> (sz = I2C_SMBUS_BLOCK_DATA \<and> rw \<noteq> I2C_SMBUS_WRITE)" by simp
    from scd_smbus_do_impl_tids_generic [OF this assms]
    have e: "phase_tids (m_req (master bus))
            (new_events h (r_hw (scd_smbus_do_impl bus addr flags rw cmd sz d ds fr h)))
          = map (\<lambda>k. k mod 16) [0..<n]"
      by (simp only: spec_phase_count_ss [OF c a b])
    have "n \<le> 16 \<Longrightarrow> map (\<lambda>k. k mod 16) [0..<n] = [0..<n]"
      by (rule nth_equalityI) simp_all
    with e show "phase_tids (m_req (master bus))
                (new_events h (r_hw (scd_smbus_do_impl bus addr flags rw cmd sz d ds fr h)))
              = map (\<lambda>k. k mod 16) [0..<n]
              \<and> (n \<le> 16 \<longrightarrow>
                   phase_tids (m_req (master bus))
                     (new_events h (r_hw (scd_smbus_do_impl bus addr flags rw cmd sz d ds fr h)))
                   = [0..<n])"
      by simp
  qed
  have g2: "sz = I2C_SMBUS_BLOCK_DATA \<and> rw = I2C_SMBUS_WRITE \<longrightarrow>
            phase_tids (m_req (master bus))
              (new_events h (r_hw (scd_smbus_do_impl bus addr flags rw cmd sz d ds fr h)))
            = map (\<lambda>k. k mod 16) [0..<3 + unat (d 0)]"
  proof (rule impI)
    assume a: "sz = I2C_SMBUS_BLOCK_DATA \<and> rw = I2C_SMBUS_WRITE"
    then have n: "\<not> (sz = I2C_SMBUS_BLOCK_DATA \<and> rw \<noteq> I2C_SMBUS_WRITE)" by simp
    have "snd (scd_smbus_do_impl_ss rw sz d ds) = 3 + unat (d 0)"
      using a by (simp add: scd_smbus_do_impl_ss_def I2C_SMBUS_BLOCK_DATA_def
          I2C_SMBUS_QUICK_def I2C_SMBUS_BYTE_def I2C_SMBUS_BYTE_DATA_def I2C_SMBUS_WORD_DATA_def
          I2C_SMBUS_I2C_BLOCK_DATA_MSG_def I2C_SMBUS_I2C_BLOCK_DATA_def)
    with scd_smbus_do_impl_tids_generic [OF n assms]
    show "phase_tids (m_req (master bus))
              (new_events h (r_hw (scd_smbus_do_impl bus addr flags rw cmd sz d ds fr h)))
            = map (\<lambda>k. k mod 16) [0..<3 + unat (d 0)]"
      by (simp only:)
  qed
  have g3: "sz = I2C_SMBUS_BLOCK_DATA \<and> rw \<noteq> I2C_SMBUS_WRITE \<and> \<not> br_supported (master bus) \<longrightarrow>
            phase_tids (m_req (master bus))
              (new_events h (r_hw (scd_smbus_do_impl bus addr flags rw cmd sz d ds fr h)))
            = [0, 1, 2, 3]
              @ (case r_status (scd_smbus_do_impl bus addr flags I2C_SMBUS_READ cmd
                                  I2C_SMBUS_BYTE_DATA d ds [] h) of
                   Inl e \<Rightarrow> []
                 | Inr u \<Rightarrow>
                     map (\<lambda>k. k mod 16)
                       [0..<4 + unat (r_data (scd_smbus_do_impl bus addr flags I2C_SMBUS_READ cmd
                                                I2C_SMBUS_BYTE_DATA d ds [] h) 0)])"
  proof (rule impI)
    assume a: "sz = I2C_SMBUS_BLOCK_DATA \<and> rw \<noteq> I2C_SMBUS_WRITE \<and> \<not> br_supported (master bus)"
    show "phase_tids (m_req (master bus))
              (new_events h (r_hw (scd_smbus_do_impl bus addr flags rw cmd sz d ds fr h)))
            = [0, 1, 2, 3]
              @ (case r_status (scd_smbus_do_impl bus addr flags I2C_SMBUS_READ cmd
                                  I2C_SMBUS_BYTE_DATA d ds [] h) of
                   Inl e \<Rightarrow> []
                 | Inr u \<Rightarrow>
                     map (\<lambda>k. k mod 16)
                       [0..<4 + unat (r_data (scd_smbus_do_impl bus addr flags I2C_SMBUS_READ cmd
                                                I2C_SMBUS_BYTE_DATA d ds [] h) 0)])"
      by (rule scd_smbus_do_impl_tids_block_read
            [OF a [THEN conjunct1] a [THEN conjunct2, THEN conjunct1]
                a [THEN conjunct2, THEN conjunct2] assms])
  qed
  show ?thesis by (rule conjI [OF g1 conjI [OF g2 g3]])
qed

text \<open>The registers of the example master.\<close>

lemma ex_master_regs [simp]:
  "m_req (master ex_bus) = 0x8010" "m_cs (master ex_bus) = 0x8020"
  "m_resp (master ex_bus) = 0x8030" "br_supported (master ex_bus) = False"
  by (simp_all add: ex_bus_def ex_master_def)

text \<open>
  The theorem at a word-data read (5 phases), a block write of 2 bytes (5 phases) and a
  block read whose probe returns the length \<open>0xA3 = 163\<close> (4 phases, then 167).
\<close>

theorem scd_smbus_do_impl_phase_ids_witness:
  "phase_tids 0x8010
     (new_events ex_hw_echo (r_hw (scd_smbus_do_impl ex_bus 0x50 0 I2C_SMBUS_READ 7
         I2C_SMBUS_WORD_DATA (ex_buf 0) 34 [] ex_hw_echo))) = [0, 1, 2, 3, 4]
   \<and> phase_tids 0x8010
     (new_events ex_hw_echo (r_hw (scd_smbus_do_impl ex_bus 0x50 0 I2C_SMBUS_WRITE 7
         I2C_SMBUS_BLOCK_DATA (ex_buf 2) 34 [] ex_hw_echo))) = [0, 1, 2, 3, 4]
   \<and> phase_tids 0x8010
     (new_events ex_hw_echo (r_hw (scd_smbus_do_impl ex_bus 0x50 0 I2C_SMBUS_READ 7
         I2C_SMBUS_BLOCK_DATA (ex_buf 0) 34 [] ex_hw_echo)))
     = [0, 1, 2, 3] @ map (\<lambda>k. k mod 16) [0..<167]"
proof -
  have ne: "m_req (master ex_bus) \<noteq> m_cs (master ex_bus)" by simp
  have c1: "spec_phase_count I2C_SMBUS_READ I2C_SMBUS_WORD_DATA (ex_buf 0) 34 = Some 5"
    by code_simp
  have n1: "I2C_SMBUS_WORD_DATA \<noteq> I2C_SMBUS_BLOCK_DATA"
    "I2C_SMBUS_WORD_DATA = I2C_SMBUS_I2C_BLOCK_DATA_MSG \<longrightarrow> (0::int) \<le> 34 \<and> (34::int) < 2 ^ 31"
    by (simp_all add: I2C_SMBUS_WORD_DATA_def I2C_SMBUS_BLOCK_DATA_def)
  have l5: "(5::nat) \<le> 16" by simp
  have u5: "[0..<5] = [0, 1, 2, 3, 4::nat]" by code_simp
  note t1 = scd_smbus_do_impl_phase_ids [OF ne, where sz = I2C_SMBUS_WORD_DATA
      and rw = I2C_SMBUS_READ and d = "ex_buf 0" and ds = 34 and n = 5 and h = ex_hw_echo
      and addr = "0x50" and flags = 0 and cmd = 7 and fr = "[]",
      THEN conjunct1, THEN mp, OF n1(1), THEN mp, OF n1(2), THEN mp, OF c1,
      THEN conjunct2, THEN mp, OF l5, unfolded u5 ex_master_regs]
  have a2: "I2C_SMBUS_BLOCK_DATA = I2C_SMBUS_BLOCK_DATA \<and> I2C_SMBUS_WRITE = I2C_SMBUS_WRITE"
    by simp
  have u2: "map (\<lambda>k. k mod 16) [0..<3 + unat (ex_buf 2 0)] = [0, 1, 2, 3, 4::nat]"
    by code_simp
  note t2 = scd_smbus_do_impl_phase_ids [OF ne, where sz = I2C_SMBUS_BLOCK_DATA
      and rw = I2C_SMBUS_WRITE and d = "ex_buf 2" and ds = 34 and h = ex_hw_echo
      and addr = "0x50" and flags = 0 and cmd = 7 and fr = "[]",
      THEN conjunct2, THEN conjunct1, THEN mp, OF a2, unfolded u2 ex_master_regs]
  have a3: "I2C_SMBUS_BLOCK_DATA = I2C_SMBUS_BLOCK_DATA \<and> I2C_SMBUS_READ \<noteq> I2C_SMBUS_WRITE
              \<and> \<not> br_supported (master ex_bus)"
    by (simp add: I2C_SMBUS_READ_def I2C_SMBUS_WRITE_def)
  have s3: "r_status (scd_smbus_do_impl ex_bus 0x50 0 I2C_SMBUS_READ 7
                        I2C_SMBUS_BYTE_DATA (ex_buf 0) 34 [] ex_hw_echo) = Inr ()"
    by code_simp
  have d3: "unat (r_data (scd_smbus_do_impl ex_bus 0x50 0 I2C_SMBUS_READ 7
                        I2C_SMBUS_BYTE_DATA (ex_buf 0) 34 [] ex_hw_echo) 0) = 163"
    by code_simp
  have k3: "4 + 163 = (167::nat)" by simp
  note t3 = scd_smbus_do_impl_phase_ids [OF ne, where sz = I2C_SMBUS_BLOCK_DATA
      and rw = I2C_SMBUS_READ and d = "ex_buf 0" and ds = 34 and h = ex_hw_echo
      and addr = "0x50" and flags = 0 and cmd = 7 and fr = "[]",
      THEN conjunct2, THEN conjunct2, THEN mp, OF a3,
      unfolded s3 d3 sum.case k3 ex_master_regs]
  show ?thesis by (rule conjI [OF t1 conjI [OF t2 t3]])
qed

text \<open>
  The claim as stated fails twice. An i2c-block write of 15 bytes issues the 17 phases of
  the table, but the id of the last one is 0 again, so the ids are not strictly
  increasing. A \<^verbatim>\<open>I2C_SMBUS_BLOCK_DATA\<close> write of 1 byte issues 4 phases (address, command,
  length byte, data byte) where the table gives \<open>2 + buf[0] = 3\<close>.
\<close>

lemma ex17: "map (\<lambda>k. k mod 16) [0..<17] = [0, 1, 2, 3, 4, 5, 6, 7, 8, 9, 10, 11, 12, 13, 14, 15, 0::nat]"
  by code_simp

theorem scd_smbus_do_impl_phase_ids_counterexample:
  "spec_phase_count I2C_SMBUS_WRITE I2C_SMBUS_I2C_BLOCK_DATA (ex_buf 15) 34 = Some 17
   \<and> phase_tids 0x8010
       (new_events ex_hw_echo (r_hw (scd_smbus_do_impl ex_bus 0x50 0 I2C_SMBUS_WRITE 7
           I2C_SMBUS_I2C_BLOCK_DATA (ex_buf 15) 34 [] ex_hw_echo)))
     = [0, 1, 2, 3, 4, 5, 6, 7, 8, 9, 10, 11, 12, 13, 14, 15, 0]
   \<and> spec_phase_count I2C_SMBUS_WRITE I2C_SMBUS_BLOCK_DATA (ex_buf 1) 34 = Some 3
   \<and> phase_tids 0x8010
       (new_events ex_hw_echo (r_hw (scd_smbus_do_impl ex_bus 0x50 0 I2C_SMBUS_WRITE 7
           I2C_SMBUS_BLOCK_DATA (ex_buf 1) 34 [] ex_hw_echo)))
     = [0, 1, 2, 3]"
proof -
  have ne: "m_req (master ex_bus) \<noteq> m_cs (master ex_bus)" by simp
  have c1: "spec_phase_count I2C_SMBUS_WRITE I2C_SMBUS_I2C_BLOCK_DATA (ex_buf 15) 34 = Some 17"
    by code_simp
  have n1: "\<not> (I2C_SMBUS_I2C_BLOCK_DATA = I2C_SMBUS_BLOCK_DATA \<and> I2C_SMBUS_WRITE \<noteq> I2C_SMBUS_WRITE)"
    by simp
  have s1: "snd (scd_smbus_do_impl_ss I2C_SMBUS_WRITE I2C_SMBUS_I2C_BLOCK_DATA (ex_buf 15) 34) = 17"
    by code_simp
  note t1 = scd_smbus_do_impl_tids_generic [OF n1 ne, where d = "ex_buf 15" and ds = 34
      and h = ex_hw_echo and addr = "0x50" and flags = 0 and cmd = 7 and fr = "[]",
      unfolded s1 ex17 ex_master_regs]
  have c2: "spec_phase_count I2C_SMBUS_WRITE I2C_SMBUS_BLOCK_DATA (ex_buf 1) 34 = Some 3"
    by code_simp
  have n2: "\<not> (I2C_SMBUS_BLOCK_DATA = I2C_SMBUS_BLOCK_DATA \<and> I2C_SMBUS_WRITE \<noteq> I2C_SMBUS_WRITE)"
    by simp
  have s2: "map (\<lambda>k. k mod 16)
              [0..<snd (scd_smbus_do_impl_ss I2C_SMBUS_WRITE I2C_SMBUS_BLOCK_DATA (ex_buf 1) 34)]
            = [0, 1, 2, 3]"
    by code_simp
  note t2 = scd_smbus_do_impl_tids_generic [OF n2 ne, where d = "ex_buf 1" and ds = 34
      and h = ex_hw_echo and addr = "0x50" and flags = 0 and cmd = 7 and fr = "[]",
      unfolded s2 ex_master_regs]
  show ?thesis by (rule conjI [OF c1 conjI [OF t1 conjI [OF c2 t2]]])
qed

subsection \<open>Retries\<close>

lemma scd_smbus_access_impl_loop_exhaust:
  assumes "\<forall>k < n. r_status (scd_smbus_do_nth bus addr flags rw cmd sz ds k d fr h) = Inl EIO"
    and "1 \<le> n" and "max_retries (master bus) \<le> r + int n"
    and "n = 1 \<or> r + int n - 1 < max_retries (master bus)"
  shows "scd_smbus_access_impl_loop bus addr flags rw cmd sz ds r d fr h
     = (Inl EIO, r_data (scd_smbus_do_nth bus addr flags rw cmd sz ds (n - 1) d fr h),
        log_msg (''smbus failed (''
                  @ r_reason (scd_smbus_do_nth bus addr flags rw cmd sz ds (n - 1) d fr h)
                  @ '')'')
          (r_hw (scd_smbus_do_nth bus addr flags rw cmd sz ds (n - 1) d fr h)))"
  using assms
proof (induction n arbitrary: r d fr h)
  case 0
  then show ?case by simp
next
  case (Suc m)
  obtain st d1 fr1 h1 where
    a: "scd_smbus_do bus addr flags rw cmd sz d ds fr h = (st, d1, fr1, h1)"
    by (cases "scd_smbus_do bus addr flags rw cmd sz d ds fr h")
  from Suc.prems(1) [rule_format, of 0] have st: "st = Inl EIO"
    by (simp add: a r_status_def)
  show ?case
  proof (cases m)
    case 0
    with Suc.prems(3) have "\<not> r + 1 < max_retries (master bus)" by simp
    then show ?thesis
      by (subst scd_smbus_access_impl_loop.simps)
         (simp add: a st 0 r_data_def r_reason_def r_hw_def)
  next
    case (Suc j)
    with Suc.prems(4) have lt: "r + 1 < max_retries (master bus)" by simp
    have p1: "\<forall>k < m. r_status (scd_smbus_do_nth bus addr flags rw cmd sz ds k d1 fr1 h1)
                 = Inl EIO"
    proof (intro allI impI)
      fix k assume "k < m"
      then have "Suc k < Suc m" by simp
      from Suc.prems(1) [rule_format, OF this] show
        "r_status (scd_smbus_do_nth bus addr flags rw cmd sz ds k d1 fr1 h1) = Inl EIO"
        by (simp add: a)
    qed
    have p2: "1 \<le> m" using Suc by simp
    have p3: "max_retries (master bus) \<le> (r + 1) + int m" using Suc.prems(3) by simp
    have p4: "m = 1 \<or> (r + 1) + int m - 1 < max_retries (master bus)"
      using Suc.prems(4) Suc by simp
    have "scd_smbus_access_impl_loop bus addr flags rw cmd sz ds r d fr h
            = scd_smbus_access_impl_loop bus addr flags rw cmd sz ds (r + 1) d1 fr1 h1"
      by (subst scd_smbus_access_impl_loop.simps) (simp add: a st lt)
    also note Suc.IH [OF p1 p2 p3 p4]
    finally show ?thesis by (simp add: Suc a)
  qed
qed

lemma scd_smbus_access_impl_loop_stop:
  assumes "\<forall>j < k. r_status (scd_smbus_do_nth bus addr flags rw cmd sz ds j d fr h) = Inl EIO"
    and "r_status (scd_smbus_do_nth bus addr flags rw cmd sz ds k d fr h) \<noteq> Inl EIO"
    and "k = 0 \<or> r + int k < max_retries (master bus)"
  shows "scd_smbus_access_impl_loop bus addr flags rw cmd sz ds r d fr h
     = (r_status (scd_smbus_do_nth bus addr flags rw cmd sz ds k d fr h),
        r_data (scd_smbus_do_nth bus addr flags rw cmd sz ds k d fr h),
        r_hw (scd_smbus_do_nth bus addr flags rw cmd sz ds k d fr h))"
  using assms
proof (induction k arbitrary: r d fr h)
  case 0
  obtain st d1 fr1 h1 where
    a: "scd_smbus_do bus addr flags rw cmd sz d ds fr h = (st, d1, fr1, h1)"
    by (cases "scd_smbus_do bus addr flags rw cmd sz d ds fr h")
  with 0(2) have "st \<noteq> Inl EIO" by (simp add: r_status_def)
  then show ?case
    by (subst scd_smbus_access_impl_loop.simps)
       (simp add: a r_status_def r_data_def r_hw_def)
next
  case (Suc m)
  obtain st d1 fr1 h1 where
    a: "scd_smbus_do bus addr flags rw cmd sz d ds fr h = (st, d1, fr1, h1)"
    by (cases "scd_smbus_do bus addr flags rw cmd sz d ds fr h")
  from Suc.prems(1) [rule_format, of 0] have st: "st = Inl EIO"
    by (simp add: a r_status_def)
  from Suc.prems(3) have lt: "r + 1 < max_retries (master bus)" by simp
  have p1: "\<forall>j < m. r_status (scd_smbus_do_nth bus addr flags rw cmd sz ds j d1 fr1 h1)
               = Inl EIO"
  proof (intro allI impI)
    fix j assume "j < m"
    then have "Suc j < Suc m" by simp
    from Suc.prems(1) [rule_format, OF this] show
      "r_status (scd_smbus_do_nth bus addr flags rw cmd sz ds j d1 fr1 h1) = Inl EIO"
      by (simp add: a)
  qed
  have p2: "r_status (scd_smbus_do_nth bus addr flags rw cmd sz ds m d1 fr1 h1) \<noteq> Inl EIO"
    using Suc.prems(2) by (simp add: a)
  have p3: "m = 0 \<or> (r + 1) + int m < max_retries (master bus)"
    using Suc.prems(3) by simp
  have "scd_smbus_access_impl_loop bus addr flags rw cmd sz ds r d fr h
          = scd_smbus_access_impl_loop bus addr flags rw cmd sz ds (r + 1) d1 fr1 h1"
    by (subst scd_smbus_access_impl_loop.simps) (simp add: a st lt)
  also note Suc.IH [OF p1 p2 p3]
  finally show ?case by (simp add: a)
qed


text \<open>
  C3 (amended). \<^verbatim>\<open>scd_smbus_access_impl\<close> executes the whole exchange at most
  \<open>max 1 max_retries\<close> times in all: the first execution and up to \<open>max_retries - 1\<close> further
  ones. If every one of these executions returns \<open>-EIO\<close>, the call returns \<open>-EIO\<close> with the
  buffer the last of them left, on the device state it left, after logging the failure.
  If the \<open>k\<close>-th execution is the first that returns anything but \<open>-EIO\<close> (success, or the
  capacity error \<open>-EINVAL\<close>), the call returns that status with the buffer and the device
  state of that execution: nothing runs after it.
\<close>

theorem scd_smbus_access_impl_retries:
  "((\<forall>k < smbus_attempts bus.
        r_status (scd_smbus_do_nth bus addr flags rw cmd sz ds k d [] h) = Inl EIO) \<longrightarrow>
      scd_smbus_access_impl bus addr flags rw cmd sz d ds h
      = (Inl EIO,
         r_data (scd_smbus_do_nth bus addr flags rw cmd sz ds (smbus_attempts bus - 1) d [] h),
         log_msg (''smbus failed (''
                   @ r_reason (scd_smbus_do_nth bus addr flags rw cmd sz ds
                                        (smbus_attempts bus - 1) d [] h) @ '')'')
           (r_hw (scd_smbus_do_nth bus addr flags rw cmd sz ds (smbus_attempts bus - 1) d [] h))))
   \<and> (k < smbus_attempts bus
        \<and> (\<forall>j < k. r_status (scd_smbus_do_nth bus addr flags rw cmd sz ds j d [] h) = Inl EIO)
        \<and> r_status (scd_smbus_do_nth bus addr flags rw cmd sz ds k d [] h) \<noteq> Inl EIO \<longrightarrow>
      scd_smbus_access_impl bus addr flags rw cmd sz d ds h
      = (r_status (scd_smbus_do_nth bus addr flags rw cmd sz ds k d [] h),
         r_data (scd_smbus_do_nth bus addr flags rw cmd sz ds k d [] h),
         r_hw (scd_smbus_do_nth bus addr flags rw cmd sz ds k d [] h)))"
proof -
  have g1: "(\<forall>k < smbus_attempts bus.
        r_status (scd_smbus_do_nth bus addr flags rw cmd sz ds k d [] h) = Inl EIO) \<longrightarrow>
      scd_smbus_access_impl bus addr flags rw cmd sz d ds h
      = (Inl EIO,
         r_data (scd_smbus_do_nth bus addr flags rw cmd sz ds (smbus_attempts bus - 1) d [] h),
         log_msg (''smbus failed (''
                   @ r_reason (scd_smbus_do_nth bus addr flags rw cmd sz ds
                                        (smbus_attempts bus - 1) d [] h) @ '')'')
           (r_hw (scd_smbus_do_nth bus addr flags rw cmd sz ds (smbus_attempts bus - 1) d [] h)))"
  proof (rule impI)
    assume a: "\<forall>k < smbus_attempts bus.
        r_status (scd_smbus_do_nth bus addr flags rw cmd sz ds k d [] h) = Inl EIO"
    have p2: "1 \<le> smbus_attempts bus" by (simp add: smbus_attempts_def)
    have p3: "max_retries (master bus) \<le> 0 + int (smbus_attempts bus)"
      by (simp add: smbus_attempts_def)
    have p4: "smbus_attempts bus = 1
                \<or> 0 + int (smbus_attempts bus) - 1 < max_retries (master bus)"
      by (auto simp add: smbus_attempts_def max_def)
    from scd_smbus_access_impl_loop_exhaust [OF a p2 p3 p4]
    show "scd_smbus_access_impl bus addr flags rw cmd sz d ds h
      = (Inl EIO,
         r_data (scd_smbus_do_nth bus addr flags rw cmd sz ds (smbus_attempts bus - 1) d [] h),
         log_msg (''smbus failed (''
                   @ r_reason (scd_smbus_do_nth bus addr flags rw cmd sz ds
                                        (smbus_attempts bus - 1) d [] h) @ '')'')
           (r_hw (scd_smbus_do_nth bus addr flags rw cmd sz ds (smbus_attempts bus - 1) d [] h)))"
      by (simp add: scd_smbus_access_impl_def)
  qed
  have g2: "k < smbus_attempts bus
        \<and> (\<forall>j < k. r_status (scd_smbus_do_nth bus addr flags rw cmd sz ds j d [] h) = Inl EIO)
        \<and> r_status (scd_smbus_do_nth bus addr flags rw cmd sz ds k d [] h) \<noteq> Inl EIO \<longrightarrow>
      scd_smbus_access_impl bus addr flags rw cmd sz d ds h
      = (r_status (scd_smbus_do_nth bus addr flags rw cmd sz ds k d [] h),
         r_data (scd_smbus_do_nth bus addr flags rw cmd sz ds k d [] h),
         r_hw (scd_smbus_do_nth bus addr flags rw cmd sz ds k d [] h))"
  proof (rule impI)
    assume a: "k < smbus_attempts bus
        \<and> (\<forall>j < k. r_status (scd_smbus_do_nth bus addr flags rw cmd sz ds j d [] h) = Inl EIO)
        \<and> r_status (scd_smbus_do_nth bus addr flags rw cmd sz ds k d [] h) \<noteq> Inl EIO"
    from a have p3: "k = 0 \<or> 0 + int k < max_retries (master bus)"
      by (auto simp add: smbus_attempts_def max_def split: if_splits)
    from scd_smbus_access_impl_loop_stop
           [OF a [THEN conjunct2, THEN conjunct1] a [THEN conjunct2, THEN conjunct2] p3]
    show "scd_smbus_access_impl bus addr flags rw cmd sz d ds h
      = (r_status (scd_smbus_do_nth bus addr flags rw cmd sz ds k d [] h),
         r_data (scd_smbus_do_nth bus addr flags rw cmd sz ds k d [] h),
         r_hw (scd_smbus_do_nth bus addr flags rw cmd sz ds k d [] h))"
      by (simp add: scd_smbus_access_impl_def)
  qed
  show ?thesis by (rule conjI [OF g1 g2])
qed

text \<open>
  With \<open>max_retries = 2\<close>: a quick write to a device that never acknowledges is executed
  twice, and an i2c-block read into a buffer of one byte returns \<open>-EINVAL\<close> after one
  execution.
\<close>

theorem scd_smbus_access_impl_retries_witness:
  "smbus_attempts (ex_bus_retries 2) = 2
   \<and> scd_smbus_access_impl (ex_bus_retries 2) 0x50 0 I2C_SMBUS_WRITE 7 I2C_SMBUS_QUICK
       (ex_buf 0) 34 ex_hw_nack
     = (Inl EIO,
        r_data (scd_smbus_do_nth (ex_bus_retries 2) 0x50 0 I2C_SMBUS_WRITE 7 I2C_SMBUS_QUICK 34
                  1 (ex_buf 0) [] ex_hw_nack),
        log_msg (''smbus failed (''
                   @ r_reason (scd_smbus_do_nth (ex_bus_retries 2) 0x50 0 I2C_SMBUS_WRITE
                                        7 I2C_SMBUS_QUICK 34 1 (ex_buf 0) [] ex_hw_nack) @ '')'')
          (r_hw (scd_smbus_do_nth (ex_bus_retries 2) 0x50 0 I2C_SMBUS_WRITE 7 I2C_SMBUS_QUICK 34
                   1 (ex_buf 0) [] ex_hw_nack)))
   \<and> scd_smbus_access_impl (ex_bus_retries 2) 0x50 0 I2C_SMBUS_READ 7 I2C_SMBUS_I2C_BLOCK_DATA
       (ex_buf 1) 1 ex_hw_echo
     = (Inl EINVAL,
        r_data (scd_smbus_do_nth (ex_bus_retries 2) 0x50 0 I2C_SMBUS_READ 7
                  I2C_SMBUS_I2C_BLOCK_DATA 1 0 (ex_buf 1) [] ex_hw_echo),
        r_hw (scd_smbus_do_nth (ex_bus_retries 2) 0x50 0 I2C_SMBUS_READ 7
                I2C_SMBUS_I2C_BLOCK_DATA 1 0 (ex_buf 1) [] ex_hw_echo))"
proof -
  have n: "smbus_attempts (ex_bus_retries 2) = 2" by code_simp
  have a0: "r_status (scd_smbus_do_nth (ex_bus_retries 2) 0x50 0 I2C_SMBUS_WRITE 7
                        I2C_SMBUS_QUICK 34 0 (ex_buf 0) [] ex_hw_nack) = Inl EIO"
    by code_simp
  have a1: "r_status (scd_smbus_do_nth (ex_bus_retries 2) 0x50 0 I2C_SMBUS_WRITE 7
                        I2C_SMBUS_QUICK 34 1 (ex_buf 0) [] ex_hw_nack) = Inl EIO"
    by code_simp
  have a: "\<forall>k < smbus_attempts (ex_bus_retries 2).
             r_status (scd_smbus_do_nth (ex_bus_retries 2) 0x50 0 I2C_SMBUS_WRITE 7
                         I2C_SMBUS_QUICK 34 k (ex_buf 0) [] ex_hw_nack) = Inl EIO"
    unfolding n using a0 a1 by (auto simp add: less_2_cases_iff)
  have m: "smbus_attempts (ex_bus_retries 2) - 1 = 1" by (simp add: n)
  note t1 = scd_smbus_access_impl_retries [where bus = "ex_bus_retries 2" and addr = "0x50"
      and flags = 0 and rw = I2C_SMBUS_WRITE and cmd = 7 and sz = I2C_SMBUS_QUICK
      and d = "ex_buf 0" and ds = 34 and h = ex_hw_nack, THEN conjunct1, THEN mp, OF a,
      unfolded m]
  have b0: "r_status (scd_smbus_do_nth (ex_bus_retries 2) 0x50 0 I2C_SMBUS_READ 7
                        I2C_SMBUS_I2C_BLOCK_DATA 1 0 (ex_buf 1) [] ex_hw_echo) = Inl EINVAL"
    by code_simp
  have b: "0 < smbus_attempts (ex_bus_retries 2)
        \<and> (\<forall>j < 0. r_status (scd_smbus_do_nth (ex_bus_retries 2) 0x50 0 I2C_SMBUS_READ 7
                        I2C_SMBUS_I2C_BLOCK_DATA 1 j (ex_buf 1) [] ex_hw_echo) = Inl EIO)
        \<and> r_status (scd_smbus_do_nth (ex_bus_retries 2) 0x50 0 I2C_SMBUS_READ 7
                        I2C_SMBUS_I2C_BLOCK_DATA 1 0 (ex_buf 1) [] ex_hw_echo) \<noteq> Inl EIO"
    by (simp only: n b0) simp
  note t2 = scd_smbus_access_impl_retries [where bus = "ex_bus_retries 2" and addr = "0x50"
      and flags = 0 and rw = I2C_SMBUS_READ and cmd = 7 and sz = I2C_SMBUS_I2C_BLOCK_DATA
      and d = "ex_buf 1" and ds = 1 and h = ex_hw_echo and k = 0, THEN conjunct2, THEN mp, OF b,
      unfolded b0]
  show ?thesis by (rule conjI [OF n conjI [OF t1 t2]])
qed

text \<open>
  The exchange is not executed, nor replayed, exactly \<open>max_retries\<close> times. A quick write
  issues one phase per execution. To a device that never acknowledges, with
  \<open>max_retries = 0\<close> it is executed once; with \<open>max_retries = 3\<close> it is executed three times,
  that is replayed twice.
\<close>

theorem scd_smbus_access_impl_retries_counterexample:
  "fst (scd_smbus_access_impl (ex_bus_retries 0) 0x50 0 I2C_SMBUS_WRITE 7 I2C_SMBUS_QUICK
          (ex_buf 0) 34 ex_hw_nack) = Inl EIO
   \<and> phase_tids 0x8010 (new_events ex_hw_nack
        (snd (snd (scd_smbus_access_impl (ex_bus_retries 0) 0x50 0 I2C_SMBUS_WRITE 7
                     I2C_SMBUS_QUICK (ex_buf 0) 34 ex_hw_nack)))) = [0]
   \<and> fst (scd_smbus_access_impl (ex_bus_retries 3) 0x50 0 I2C_SMBUS_WRITE 7 I2C_SMBUS_QUICK
          (ex_buf 0) 34 ex_hw_nack) = Inl EIO
   \<and> phase_tids 0x8010 (new_events ex_hw_nack
        (snd (snd (scd_smbus_access_impl (ex_bus_retries 3) 0x50 0 I2C_SMBUS_WRITE 7
                     I2C_SMBUS_QUICK (ex_buf 0) 34 ex_hw_nack)))) = [0, 0, 0]"
  by code_simp

subsection \<open>Validation failures\<close>

lemma valid_from_Nil [simp]: "valid_from tid []"
  by (simp add: valid_from_def)








lemma new_events_self [simp]: "new_events h h = []"
  by (simp add: new_events_def)







lemma reg_reads_map_write [simp]: "reg_reads off (map (\<lambda>r. RegWrite a (f r)) rs) = []"
  by (induction rs) auto

lemma reg_reads_reset [simp]:
  "a \<noteq> off \<Longrightarrow> reg_reads off (spec_master_reset_events a v) = []"
  by (simp add: spec_master_reset_events_def)

















subsection \<open>The capacity of the read buffer\<close>





lemma stores_reset [simp]: "stores (spec_master_reset_events a v) = []"
  by (simp add: spec_master_reset_events_def)






















end
